theory Spec2Isabelle
  imports Main
begin

section \<open>goldmark-pipefence: fenced code blocks piped through transformer functions\<close>

text \<open>
  The development follows \<^verbatim>\<open>src/extension.go\<close>. The extension has two parts: the AST
  transformer \<^verbatim>\<open>transformer.Transform\<close>, which replaces eligible fenced code blocks by
  \<^verbatim>\<open>pfBlock\<close> nodes, and the node renderer registered by \<^verbatim>\<open>pfRenderer.RegisterFuncs\<close>,
  which pipes the content of a \<^verbatim>\<open>pfBlock\<close> through the matching \<^verbatim>\<open>PipeFunc\<close>.
  Both run inside the goldmark engine. The parts of goldmark they call (\<^verbatim>\<open>text.Segment\<close>,
  \<^verbatim>\<open>ast.BaseNode\<close>, \<^verbatim>\<open>ast.Walk\<close>, the renderer's dispatch on node kinds) are not part of this
  repository; they are written out below, marked as host operations, as far as the
  extension uses them.
\<close>

subsection \<open>Bytes, segments and the registry\<close>

type_synonym bytes = string

text \<open>\<^verbatim>\<open>type PipeFunc func([]byte) ([]byte, error)\<close>: \<open>Inl\<close> carries the error's text.\<close>

type_synonym PipeFunc = "bytes \<Rightarrow> string + bytes"

text \<open>
  Host: \<^verbatim>\<open>text.Segment\<close>, a span \<^verbatim>\<open>[Start, Stop)\<close> of the source buffer with \<^verbatim>\<open>Padding\<close>
  leading spaces. \<^verbatim>\<open>Segment.Value(buffer)\<close> is \<^verbatim>\<open>buffer[Start:Stop]\<close>, prefixed with the
  padding. The slice expression panics outside the buffer: \<open>None\<close>.
\<close>

record Segment =
  Start :: nat
  Stop :: nat
  Padding :: nat

definition Value :: "Segment \<Rightarrow> bytes \<Rightarrow> bytes option" where
  "Value t buffer =
     (if Start t \<le> Stop t \<and> Stop t \<le> length buffer
      then (if Padding t = 0
            then Some (take (Stop t - Start t) (drop (Start t) buffer))
            else Some (replicate (Padding t) (CHR '' '')
                       @ take (Stop t - Start t) (drop (Start t) buffer)))
      else None)"

subsection \<open>The document tree\<close>

text \<open>
  Nodes live in a heap and refer to each other by address, as goldmark's nodes do by
  pointer: \<^verbatim>\<open>ast.BaseNode\<close> holds \<^verbatim>\<open>firstChild\<close>, \<^verbatim>\<open>lastChild\<close>, \<^verbatim>\<open>parent\<close>, \<^verbatim>\<open>next\<close>,
  \<^verbatim>\<open>prev\<close> and \<^verbatim>\<open>childCount\<close>. \<open>ntype\<close> is the node's dynamic Go type, the thing a type
  assertion tests; a fenced code block carries \<^verbatim>\<open>Info\<close> (the segment of the fence's info
  string, nil when the fence has none) and its content lines.
\<close>

type_synonym addr = nat

datatype node_type = Document | FencedCodeBlock | PfBlock | OtherNode nat

datatype NodeKind = KindDocument | KindFencedCodeBlock | pfKind | KindOther nat

record node =
  ntype :: node_type
  Info :: "Segment option"
  Lines :: "Segment list"
  parent :: "addr option"
  previousSibling :: "addr option"
  nextSibling :: "addr option"
  firstChild :: "addr option"
  lastChild :: "addr option"
  childCount :: int

text \<open>
  \<^verbatim>\<open>func (b *pfBlock) Kind() ast.NodeKind { return pfKind }\<close> and
  \<^verbatim>\<open>func (b *pfBlock) IsRaw() bool { return true }\<close>; the other kinds are the host's.
\<close>

fun Kind :: "node_type \<Rightarrow> NodeKind" where
  "Kind PfBlock = pfKind"
| "Kind FencedCodeBlock = KindFencedCodeBlock"
| "Kind Document = KindDocument"
| "Kind (OtherNode k) = KindOther k"

text \<open>
  Host: \<^verbatim>\<open>FencedCodeBlock.Language(source)\<close>, the info string up to its first space, nil
  without an info string (\<^verbatim>\<open>string(nil)\<close> is the empty string). \<^verbatim>\<open>pfBlock\<close> embeds
  \<^verbatim>\<open>ast.FencedCodeBlock\<close> and inherits the method. The host memoises the result in a
  private field; the source buffer never changes, so the memo is left out.
\<close>

definition Language :: "node \<Rightarrow> bytes \<Rightarrow> bytes option" where
  "Language b src =
     (case Info b of
        None \<Rightarrow> Some []
      | Some segment \<Rightarrow>
          (case Value segment src of
             None \<Rightarrow> None
           | Some info \<Rightarrow> Some (takeWhile (\<lambda>c. c \<noteq> CHR '' '') info)))"

subsection \<open>The state of a conversion\<close>

text \<open>
  One record holds what a conversion touches: the node heap with its allocation mark
  (addresses from \<open>brk\<close> on are unused), the source buffer, the extension's \<^verbatim>\<open>PipeFuncs\<close>
  map and the output writer. \<open>calls\<close> is a ghost log: each invocation of a \<^verbatim>\<open>PipeFunc\<close>
  appends the node it was invoked for, the language and the bytes it was given.
\<close>

record world =
  heap :: "addr \<Rightarrow> node"
  brk :: addr
  source :: bytes
  PipeFuncs :: "string \<rightharpoonup> PipeFunc"
  sink :: bytes
  calls :: "(addr \<times> string \<times> bytes) list"

subsection \<open>Host: editing the tree (\<^verbatim>\<open>ast.BaseNode\<close>)\<close>

definition SetParent :: "(addr \<Rightarrow> node) \<Rightarrow> addr \<Rightarrow> addr option \<Rightarrow> (addr \<Rightarrow> node)" where
  "SetParent h n v = h(n := (h n)\<lparr>parent := v\<rparr>)"

definition SetPreviousSibling :: "(addr \<Rightarrow> node) \<Rightarrow> addr \<Rightarrow> addr option \<Rightarrow> (addr \<Rightarrow> node)" where
  "SetPreviousSibling h n v = h(n := (h n)\<lparr>previousSibling := v\<rparr>)"

definition SetNextSibling :: "(addr \<Rightarrow> node) \<Rightarrow> addr \<Rightarrow> addr option \<Rightarrow> (addr \<Rightarrow> node)" where
  "SetNextSibling h n v = h(n := (h n)\<lparr>nextSibling := v\<rparr>)"

text \<open>
  \<^verbatim>\<open>func (n *BaseNode) RemoveChild(self, v Node)\<close>. The receiver \<open>n\<close> is the node whose
  \<^verbatim>\<open>firstChild\<close>, \<^verbatim>\<open>lastChild\<close> and \<^verbatim>\<open>childCount\<close> are written; \<open>self\<close> is only compared
  with \<^verbatim>\<open>v.Parent()\<close>:
  \<^verbatim>\<open>
  if v.Parent() != self { return }
  n.childCount--
  prev := v.PreviousSibling(); next := v.NextSibling()
  if prev != nil { prev.SetNextSibling(next) } else { n.firstChild = next }
  if next != nil { next.SetPreviousSibling(prev) } else { n.lastChild = prev }
  v.SetParent(nil); v.SetPreviousSibling(nil); v.SetNextSibling(nil)
  \<close>
\<close>

definition RemoveChild :: "(addr \<Rightarrow> node) \<Rightarrow> addr \<Rightarrow> addr option \<Rightarrow> addr \<Rightarrow> (addr \<Rightarrow> node)" where
  "RemoveChild h n self v =
     (if parent (h v) \<noteq> self then h
      else
        let h1 = h(n := (h n)\<lparr>childCount := childCount (h n) - 1\<rparr>);
            prev = previousSibling (h1 v);
            next = nextSibling (h1 v);
            h2 = (case prev of
                    Some p \<Rightarrow> SetNextSibling h1 p next
                  | None \<Rightarrow> h1(n := (h1 n)\<lparr>firstChild := next\<rparr>));
            h3 = (case next of
                    Some x \<Rightarrow> SetPreviousSibling h2 x prev
                  | None \<Rightarrow> h2(n := (h2 n)\<lparr>lastChild := prev\<rparr>))
        in SetNextSibling (SetPreviousSibling (SetParent h3 v None) v None) v None)"

text \<open>
  \<^verbatim>\<open>func ensureIsolated(v Node) { if p := v.Parent(); p != nil { p.RemoveChild(p, v) } }\<close>
\<close>

definition ensureIsolated :: "(addr \<Rightarrow> node) \<Rightarrow> addr \<Rightarrow> (addr \<Rightarrow> node)" where
  "ensureIsolated h v =
     (case parent (h v) of
        None \<Rightarrow> h
      | Some p \<Rightarrow> RemoveChild h p (Some p) v)"

text \<open>
  \<^verbatim>\<open>func (n *BaseNode) InsertBefore(self, v1, insertee Node)\<close> for a non-nil \<open>v1\<close> (the
  extension always passes a collected block, so the \<^verbatim>\<open>v1 == nil\<close> branch, which appends,
  is never taken):
  \<^verbatim>\<open>
  n.childCount++
  ensureIsolated(insertee)
  if v1.Parent() != self { return }
  insertee.SetParent(self); insertee.SetNextSibling(v1)
  prev := v1.PreviousSibling()
  if prev != nil { prev.SetNextSibling(insertee); insertee.SetPreviousSibling(prev) }
  else { n.firstChild = insertee; insertee.SetPreviousSibling(nil) }
  v1.SetPreviousSibling(insertee)
  \<close>
\<close>

definition InsertBefore ::
  "(addr \<Rightarrow> node) \<Rightarrow> addr \<Rightarrow> addr option \<Rightarrow> addr \<Rightarrow> addr \<Rightarrow> (addr \<Rightarrow> node)" where
  "InsertBefore h n self v1 insertee =
     (let h1 = h(n := (h n)\<lparr>childCount := childCount (h n) + 1\<rparr>);
          h2 = ensureIsolated h1 insertee
      in if parent (h2 v1) \<noteq> self then h2
         else
           let h3 = SetNextSibling (SetParent h2 insertee self) insertee (Some v1);
               prev = previousSibling (h3 v1);
               h4 = (case prev of
                       Some p \<Rightarrow> SetPreviousSibling (SetNextSibling h3 p (Some insertee)) insertee prev
                     | None \<Rightarrow>
                         SetPreviousSibling (h3(n := (h3 n)\<lparr>firstChild := Some insertee\<rparr>))
                           insertee None)
           in SetPreviousSibling h4 v1 (Some insertee))"

text \<open>
  \<^verbatim>\<open>func (n *BaseNode) ReplaceChild(self, v1, insertee Node) {
      n.InsertBefore(self, v1, insertee); n.RemoveChild(self, v1) }\<close>
\<close>

definition ReplaceChild ::
  "(addr \<Rightarrow> node) \<Rightarrow> addr \<Rightarrow> addr option \<Rightarrow> addr \<Rightarrow> addr \<Rightarrow> (addr \<Rightarrow> node)" where
  "ReplaceChild h n self v1 insertee = RemoveChild (InsertBefore h n self v1 insertee) n self v1"

subsection \<open>Host: walking the tree (\<^verbatim>\<open>ast.Walk\<close>)\<close>

datatype WalkStatus = WalkStop | WalkSkipChildren | WalkContinue

text \<open>
  The errors a walker returns: the renderer's
  \<^verbatim>\<open>fmt.Errorf("fenced block transformer %q: %v", lang, err)\<close> keeps the language and the
  cause; \<open>HostError\<close> stands for errors of the host's own renderers.
\<close>

datatype error = TransformerError string string | HostError string

text \<open>What a walker call does: it panics, or returns a status, an error and the new state.\<close>

datatype 's walked = Panicked | Walked WalkStatus "error option" 's

text \<open>
  \<^verbatim>\<open>
  func walkHelper(n Node, walker Walker) (WalkStatus, error) {
      status, err := walker(n, true)
      if err != nil || status == WalkStop { return status, err }
      if status != WalkSkipChildren {
          for c := n.FirstChild(); c != nil; c = c.NextSibling() {
              if st, err := walkHelper(c, walker); err != nil || st == WalkStop {
                  return WalkStop, err } } }
      status, err = walker(n, false)
      if err != nil || status == WalkStop { return WalkStop, err }
      return WalkContinue, nil }
  \<close>
  The walker is called on entering and on leaving every node. The links are read from
  the heap of the current state (\<open>hp\<close> projects it). The recursion follows pointers, so
  it runs on fuel: \<open>None\<close> when the fuel is used up.
\<close>

fun walkHelper ::
    "nat \<Rightarrow> ('s \<Rightarrow> addr \<Rightarrow> node) \<Rightarrow> (addr \<Rightarrow> bool \<Rightarrow> 's \<Rightarrow> 's walked) \<Rightarrow> addr \<Rightarrow> 's \<Rightarrow> 's walked option"
  and walkChildren ::
    "nat \<Rightarrow> ('s \<Rightarrow> addr \<Rightarrow> node) \<Rightarrow> (addr \<Rightarrow> bool \<Rightarrow> 's \<Rightarrow> 's walked) \<Rightarrow> addr option \<Rightarrow> 's \<Rightarrow> 's walked option"
  where
  "walkHelper 0 hp walker n s = None"
| "walkHelper (Suc k) hp walker n s =
     (case walker n True s of
        Panicked \<Rightarrow> Some Panicked
      | Walked status err s1 \<Rightarrow>
          if err \<noteq> None \<or> status = WalkStop then Some (Walked status err s1)
          else
            (case (if status \<noteq> WalkSkipChildren
                   then walkChildren k hp walker (firstChild (hp s1 n)) s1
                   else Some (Walked WalkContinue None s1)) of
               None \<Rightarrow> None
             | Some Panicked \<Rightarrow> Some Panicked
             | Some (Walked st cerr s2) \<Rightarrow>
                 if cerr \<noteq> None \<or> st = WalkStop then Some (Walked WalkStop cerr s2)
                 else
                   (case walker n False s2 of
                      Panicked \<Rightarrow> Some Panicked
                    | Walked status' err' s3 \<Rightarrow>
                        if err' \<noteq> None \<or> status' = WalkStop
                        then Some (Walked WalkStop err' s3)
                        else Some (Walked WalkContinue None s3))))"
| "walkChildren 0 hp walker c s = None"
| "walkChildren (Suc k) hp walker None s = Some (Walked WalkContinue None s)"
| "walkChildren (Suc k) hp walker (Some c) s =
     (case walkHelper k hp walker c s of
        None \<Rightarrow> None
      | Some Panicked \<Rightarrow> Some Panicked
      | Some (Walked st err s1) \<Rightarrow>
          if err \<noteq> None \<or> st = WalkStop then Some (Walked WalkStop err s1)
          else walkChildren k hp walker (nextSibling (hp s1 c)) s1)"

definition Walk ::
    "nat \<Rightarrow> ('s \<Rightarrow> addr \<Rightarrow> node) \<Rightarrow> (addr \<Rightarrow> bool \<Rightarrow> 's \<Rightarrow> 's walked) \<Rightarrow> addr \<Rightarrow> 's \<Rightarrow> 's walked option"
  where
  "Walk fuel hp walker n s = walkHelper fuel hp walker n s"

subsection \<open>The AST transformer: \<^verbatim>\<open>transformer.Transform\<close>\<close>

text \<open>
  The walker of \<^verbatim>\<open>Transform\<close> (lines 65-72). Its state is the conversion's state and the
  closure's variable \<^verbatim>\<open>fencedBlocks\<close>. The type assertion
  \<^verbatim>\<open>node.(*ast.FencedCodeBlock)\<close> holds for fenced code blocks only, a \<^verbatim>\<open>*pfBlock\<close> is
  another type. The parameter \<^verbatim>\<open>enter\<close> is not looked at: the block is appended on
  entering and on leaving.
\<close>

definition collect :: "addr \<Rightarrow> bool \<Rightarrow> world \<times> addr list \<Rightarrow> (world \<times> addr list) walked" where
  "collect n enter s =
     (case s of (w, fencedBlocks) \<Rightarrow>
        if ntype (heap w n) \<noteq> FencedCodeBlock then Walked WalkContinue None s
        else Walked WalkContinue None (w, fencedBlocks @ [n]))"

text \<open>
  The loop of lines 78-89 over the collected blocks. \<^verbatim>\<open>&pfBlock{FencedCodeBlock: *fb}\<close>
  allocates a node that is a copy of the whole struct \<^verbatim>\<open>*fb\<close>, links included, under the
  type \<^verbatim>\<open>pfBlock\<close>. The receiver of \<^verbatim>\<open>ReplaceChild\<close> is \<^verbatim>\<open>doc\<close>, its first argument is
  \<^verbatim>\<open>fb.Parent()\<close>. \<open>None\<close>: \<^verbatim>\<open>Language\<close> panicked.
\<close>

fun replaceBlocks :: "addr \<Rightarrow> world \<Rightarrow> addr list \<Rightarrow> world option" where
  "replaceBlocks doc w [] = Some w"
| "replaceBlocks doc w (fb # fbs) =
     (case Language (heap w fb) (source w) of
        None \<Rightarrow> None
      | Some lang \<Rightarrow>
          (case PipeFuncs w lang of
             None \<Rightarrow> replaceBlocks doc w fbs
           | Some _ \<Rightarrow>
               let parent = parent (heap w fb);
                   insertee = brk w;
                   h = (heap w)(insertee := (heap w fb)\<lparr>ntype := PfBlock\<rparr>)
               in replaceBlocks doc
                    (w\<lparr>heap := ReplaceChild h doc parent fb insertee, brk := Suc insertee\<rparr>)
                    fbs))"

text \<open>
  \<^verbatim>\<open>Transform\<close> ends in one of three ways: a panic, \<^verbatim>\<open>log.Fatalf\<close> on an error of the
  walk, or the rewritten tree.
\<close>

datatype transformed = TransformPanicked | Fatal error | Transformed world

definition Transform :: "nat \<Rightarrow> world \<Rightarrow> addr \<Rightarrow> transformed option" where
  "Transform fuel w doc =
     (case Walk fuel (\<lambda>s. heap (fst s)) collect doc (w, []) of
        None \<Rightarrow> None
      | Some Panicked \<Rightarrow> Some TransformPanicked
      | Some (Walked st err (w', fencedBlocks)) \<Rightarrow>
          (case err of
             Some e \<Rightarrow> Some (Fatal e)
           | None \<Rightarrow>
               (case replaceBlocks doc w' fencedBlocks of
                  None \<Rightarrow> Some TransformPanicked
                | Some w'' \<Rightarrow> Some (Transformed w''))))"

subsection \<open>The node renderer: \<^verbatim>\<open>pfBlock.RawContent\<close> and \<^verbatim>\<open>renderFenced\<close>\<close>

text \<open>
  \<^verbatim>\<open>for i := 0; i < lines.Len(); i++ { line := lines.At(i); buf.Write(line.Value(src)) }\<close>
  with the buffer as accumulator; \<open>None\<close> when a segment lies outside the source.
\<close>

function RawContent_loop :: "Segment list \<Rightarrow> bytes \<Rightarrow> nat \<Rightarrow> bytes \<Rightarrow> bytes option" where
  "RawContent_loop lines src i buf =
     (if i < length lines
      then (case Value (lines ! i) src of
              None \<Rightarrow> None
            | Some line \<Rightarrow> RawContent_loop lines src (Suc i) (buf @ line))
      else Some buf)"
  by pat_completeness auto
termination
  by (relation "measure (\<lambda>(lines, src, i, buf). length lines - i)") auto

definition RawContent :: "node \<Rightarrow> bytes \<Rightarrow> bytes option" where
  "RawContent b src = RawContent_loop (Lines b) src 0 []"

text \<open>
  \<^verbatim>\<open>renderFenced\<close> (lines 122-140). The unchecked assertion \<^verbatim>\<open>node.(*pfBlock)\<close> panics on
  any other node. \<^verbatim>\<open>w.Write(content)\<close> appends to the output; its result is dropped.
\<close>

definition renderFenced :: "world \<Rightarrow> addr \<Rightarrow> bool \<Rightarrow> world walked" where
  "renderFenced w n entering =
     (if ntype (heap w n) \<noteq> PfBlock then Panicked
      else
        (case Language (heap w n) (source w) of
           None \<Rightarrow> Panicked
         | Some lang \<Rightarrow>
             (case PipeFuncs w lang of
                None \<Rightarrow> Walked WalkContinue None w
              | Some pipeFunc \<Rightarrow>
                  if \<not> entering then Walked WalkContinue None w
                  else
                    (case RawContent (heap w n) (source w) of
                       None \<Rightarrow> Panicked
                     | Some raw \<Rightarrow>
                         (case pipeFunc raw of
                            Inl err \<Rightarrow>
                              Walked WalkStop (Some (TransformerError lang err))
                                (w\<lparr>calls := calls w @ [(n, lang, raw)]\<rparr>)
                          | Inr content \<Rightarrow>
                              Walked WalkSkipChildren None
                                (w\<lparr>sink := sink w @ content,
                                   calls := calls w @ [(n, lang, raw)]\<rparr>))))))"

subsection \<open>Host: rendering and conversion\<close>

text \<open>
  A node renderer of the host, \<^verbatim>\<open>func(w util.BufWriter, source []byte, n ast.Node,
  entering bool) (ast.WalkStatus, error)\<close>: it reads the tree and the source and writes
  to the output. The host's own renderers are a parameter, \<open>dflt\<close>.
\<close>

type_synonym NodeRendererFunc =
  "(addr \<Rightarrow> node) \<Rightarrow> bytes \<Rightarrow> addr \<Rightarrow> bool \<Rightarrow> bytes \<Rightarrow> bytes walked"

definition hostFunc :: "NodeRendererFunc \<Rightarrow> world \<Rightarrow> addr \<Rightarrow> bool \<Rightarrow> world walked" where
  "hostFunc dflt w n entering =
     (case dflt (heap w) (source w) n entering (sink w) of
        Panicked \<Rightarrow> Panicked
      | Walked st err out \<Rightarrow> Walked st err (w\<lparr>sink := out\<rparr>))"

text \<open>
  The renderer looks the function up under \<^verbatim>\<open>n.Kind()\<close>:
  \<^verbatim>\<open>f := r.nodeRendererFuncs[n.Kind()]; if f != nil { s, err = f(writer, source, n, entering) }\<close>.
  \<^verbatim>\<open>registry.Register(pfKind, renderFenced)\<close> puts \<^verbatim>\<open>renderFenced\<close> under \<^verbatim>\<open>pfKind\<close>; without
  the extension nothing is registered there and the walk continues.
\<close>

definition nodeRenderer :: "NodeRendererFunc \<Rightarrow> addr \<Rightarrow> bool \<Rightarrow> world \<Rightarrow> world walked" where
  "nodeRenderer dflt n entering w =
     (if Kind (ntype (heap w n)) = pfKind then renderFenced w n entering
      else hostFunc dflt w n entering)"

definition plainRenderer :: "NodeRendererFunc \<Rightarrow> addr \<Rightarrow> bool \<Rightarrow> world \<Rightarrow> world walked" where
  "plainRenderer dflt n entering w =
     (if Kind (ntype (heap w n)) = pfKind then Walked WalkContinue None w
      else hostFunc dflt w n entering)"

definition Render :: "nat \<Rightarrow> NodeRendererFunc \<Rightarrow> world \<Rightarrow> addr \<Rightarrow> world walked option" where
  "Render fuel dflt w doc = Walk fuel heap (nodeRenderer dflt) doc w"

definition plainRender :: "nat \<Rightarrow> NodeRendererFunc \<Rightarrow> world \<Rightarrow> addr \<Rightarrow> world walked option" where
  "plainRender fuel dflt w doc = Walk fuel heap (plainRenderer dflt) doc w"

text \<open>
  A conversion of a parsed document with the extension installed: the AST transformer,
  then the renderer. \<open>Crashed\<close> is a panic or \<^verbatim>\<open>log.Fatalf\<close>.
\<close>

datatype converted = Crashed | Rendered "error option" world

definition Convert :: "nat \<Rightarrow> NodeRendererFunc \<Rightarrow> world \<Rightarrow> addr \<Rightarrow> converted option" where
  "Convert fuel dflt w doc =
     (case Transform fuel w doc of
        None \<Rightarrow> None
      | Some TransformPanicked \<Rightarrow> Some Crashed
      | Some (Fatal e) \<Rightarrow> Some Crashed
      | Some (Transformed w') \<Rightarrow>
          (case Render fuel dflt w' doc of
             None \<Rightarrow> None
           | Some Panicked \<Rightarrow> Some Crashed
           | Some (Walked st err w'') \<Rightarrow> Some (Rendered err w'')))"

subsection \<open>Documents as trees\<close>

text \<open>
  A heap holds a document when the \<^verbatim>\<open>firstChild\<close> and \<^verbatim>\<open>next\<close> links from its root spell
  out a finite tree. \<open>is_subtree h n t\<close> says that the node at \<open>n\<close> and what hangs below it
  is the tree \<open>t\<close> of addresses; \<open>is_chain\<close> does the same for a list of siblings.
\<close>

datatype tree = Tree addr "tree list"

fun is_subtree :: "(addr \<Rightarrow> node) \<Rightarrow> addr \<Rightarrow> tree \<Rightarrow> bool"
  and is_chain :: "(addr \<Rightarrow> node) \<Rightarrow> addr option \<Rightarrow> tree list \<Rightarrow> bool" where
  "is_subtree h n (Tree a ts) = (n = a \<and> is_chain h (firstChild (h n)) ts)"
| "is_chain h None [] = True"
| "is_chain h (Some c) (t # ts) = (is_subtree h c t \<and> is_chain h (nextSibling (h c)) ts)"
| "is_chain h None (t # ts) = False"
| "is_chain h (Some c) [] = False"

text \<open>The fuel that a walk over a tree needs.\<close>

fun cost :: "tree \<Rightarrow> nat" and costs :: "tree list \<Rightarrow> nat" where
  "cost (Tree a ts) = Suc (costs ts)"
| "costs [] = Suc 0"
| "costs (t # ts) = Suc (max (cost t) (costs ts))"

text \<open>
  The walk of \<^verbatim>\<open>ast.Walk\<close> over a tree: \<open>walkHelper\<close> with the children read from the tree
  instead of the heap. \<open>walk_fuel\<close> below shows that the two agree.
\<close>

fun walkTree :: "(addr \<Rightarrow> bool \<Rightarrow> 's \<Rightarrow> 's walked) \<Rightarrow> tree \<Rightarrow> 's \<Rightarrow> 's walked"
  and walkForest :: "(addr \<Rightarrow> bool \<Rightarrow> 's \<Rightarrow> 's walked) \<Rightarrow> tree list \<Rightarrow> 's \<Rightarrow> 's walked" where
  "walkTree walker (Tree n ts) s =
     (case walker n True s of
        Panicked \<Rightarrow> Panicked
      | Walked status err s1 \<Rightarrow>
          if err \<noteq> None \<or> status = WalkStop then Walked status err s1
          else
            (case (if status \<noteq> WalkSkipChildren then walkForest walker ts s1
                   else Walked WalkContinue None s1) of
               Panicked \<Rightarrow> Panicked
             | Walked st cerr s2 \<Rightarrow>
                 if cerr \<noteq> None \<or> st = WalkStop then Walked WalkStop cerr s2
                 else
                   (case walker n False s2 of
                      Panicked \<Rightarrow> Panicked
                    | Walked status' err' s3 \<Rightarrow>
                        if err' \<noteq> None \<or> status' = WalkStop
                        then Walked WalkStop err' s3
                        else Walked WalkContinue None s3)))"
| "walkForest walker [] s = Walked WalkContinue None s"
| "walkForest walker (t # ts) s =
     (case walkTree walker t s of
        Panicked \<Rightarrow> Panicked
      | Walked st err s1 \<Rightarrow>
          if err \<noteq> None \<or> st = WalkStop then Walked WalkStop err s1
          else walkForest walker ts s1)"

text \<open>A walker that leaves the heap as it is.\<close>

definition keeps_heap :: "('s \<Rightarrow> addr \<Rightarrow> node) \<Rightarrow> (addr \<Rightarrow> bool \<Rightarrow> 's \<Rightarrow> 's walked) \<Rightarrow> bool" where
  "keeps_heap hp walker = (\<forall>n e s st err s'. walker n e s = Walked st err s' \<longrightarrow> hp s' = hp s)"

text \<open>The addresses of a tree in document order (pre-order, depth first).\<close>

fun nodes :: "tree \<Rightarrow> addr list" and nodess :: "tree list \<Rightarrow> addr list" where
  "nodes (Tree n ts) = n # nodess ts"
| "nodess [] = []"
| "nodess (t # ts) = nodes t @ nodess ts"

text \<open>
  The fenced code blocks of a tree in the order in which the walker of \<^verbatim>\<open>Transform\<close>
  appends them: every block once on entering and once on leaving.
\<close>

fun collected :: "(addr \<Rightarrow> node) \<Rightarrow> tree \<Rightarrow> addr list"
  and collecteds :: "(addr \<Rightarrow> node) \<Rightarrow> tree list \<Rightarrow> addr list" where
  "collected h (Tree n ts) =
     (if ntype (h n) = FencedCodeBlock then [n] else []) @ collecteds h ts
     @ (if ntype (h n) = FencedCodeBlock then [n] else [])"
| "collecteds h [] = []"
| "collecteds h (t # ts) = collected h t @ collecteds h ts"

subsection \<open>Observations\<close>

text \<open>The state a walk ends in, and what a conversion returns, writes and ends in.\<close>

definition finalWorld :: "world walked option \<Rightarrow> world option" where
  "finalWorld r = (case r of Some (Walked st err w) \<Rightarrow> Some w | _ \<Rightarrow> None)"

definition rendered :: "converted option \<Rightarrow> (error option \<times> bytes) option" where
  "rendered c = (case c of Some (Rendered err w) \<Rightarrow> Some (err, sink w) | _ \<Rightarrow> None)"

definition convertedWorld :: "converted option \<Rightarrow> world option" where
  "convertedWorld c = (case c of Some (Rendered err w) \<Rightarrow> Some w | _ \<Rightarrow> None)"

text \<open>
  What the host's edits leave alone: the type of a node, its info string and its lines.
\<close>

definition payload :: "node \<Rightarrow> node_type \<times> Segment option \<times> Segment list" where
  "payload b = (ntype b, Info b, Lines b)"


text \<open>
  The byte span \<^verbatim>\<open>[Start, Stop)\<close> of the buffer that a segment refers to, without the
  padding: the content-line span that the specification speaks of.
\<close>

definition sourceSpan :: "Segment \<Rightarrow> bytes \<Rightarrow> bytes" where
  "sourceSpan t buffer = take (Stop t - Start t) (drop (Start t) buffer)"

text \<open>A conversion by the host alone, without the extension.\<close>

definition plainConvert :: "nat \<Rightarrow> NodeRendererFunc \<Rightarrow> world \<Rightarrow> addr \<Rightarrow> converted option" where
  "plainConvert fuel dflt w doc =
     (case plainRender fuel dflt w doc of
        None \<Rightarrow> None
      | Some Panicked \<Rightarrow> Some Crashed
      | Some (Walked st err w') \<Rightarrow> Some (Rendered err w'))"

subsection \<open>Example documents\<close>

text \<open>
  The transformer of the repository's test, \<^verbatim>\<open>bytes.ReplaceAll(a, []byte("o"), []byte("a"))\<close>,
  one that always fails, and a small host renderer that puts paragraphs in \<^verbatim>\<open><p>\<close> and
  fenced code blocks in \<^verbatim>\<open><pre>\<close>.
\<close>

definition banana :: PipeFunc where
  "banana a = Inr (map (\<lambda>c. if c = CHR ''o'' then CHR ''a'' else c) a)"

definition broken :: PipeFunc where
  "broken a = Inl ''exit status 1''"

definition exampleHost :: NodeRendererFunc where
  "exampleHost h src n entering out =
     (if entering then
        (case ntype (h n) of
           OtherNode k \<Rightarrow>
             Walked WalkContinue None
               (out @ ''<p>'' @ (case RawContent (h n) src of None \<Rightarrow> [] | Some t \<Rightarrow> t) @ ''</p>'')
         | FencedCodeBlock \<Rightarrow>
             Walked WalkContinue None
               (out @ ''<pre>'' @ (case RawContent (h n) src of None \<Rightarrow> [] | Some t \<Rightarrow> t) @ ''</pre>'')
         | _ \<Rightarrow> Walked WalkContinue None out)
      else Walked WalkContinue None out)"

definition emptyNode :: node where
  "emptyNode = \<lparr>ntype = OtherNode 0, Info = None, Lines = [], parent = None,
     previousSibling = None, nextSibling = None, firstChild = None, lastChild = None,
     childCount = 0\<rparr>"

text \<open>The test \<^verbatim>\<open>RenderFooAsFaa\<close>: a document that is one fenced block tagged \<^verbatim>\<open>banana\<close>.\<close>

definition docBanana :: world where
  "docBanana =
     \<lparr>heap = (\<lambda>_. emptyNode)
        (0 := emptyNode\<lparr>ntype := Document, firstChild := Some 1, lastChild := Some 1,
                childCount := 1\<rparr>,
         1 := emptyNode\<lparr>ntype := FencedCodeBlock,
                Info := Some \<lparr>Start = 3, Stop = 9, Padding = 0\<rparr>,
                Lines := [\<lparr>Start = 10, Stop = 14, Padding = 0\<rparr>], parent := Some 0\<rparr>),
      brk = 2,
      source = ''```banana'' @ [CHR 0x0A] @ ''foo'' @ [CHR 0x0A] @ ''```'' @ [CHR 0x0A],
      PipeFuncs = [''banana'' \<mapsto> banana], sink = [], calls = []\<rparr>"

text \<open>The test \<^verbatim>\<open>UnregisteredTransformerRendersLikeNormalFencedBlock\<close>.\<close>

definition docUnknown :: world where
  "docUnknown =
     \<lparr>heap = (\<lambda>_. emptyNode)
        (0 := emptyNode\<lparr>ntype := Document, firstChild := Some 1, lastChild := Some 1,
                childCount := 1\<rparr>,
         1 := emptyNode\<lparr>ntype := FencedCodeBlock,
                Info := Some \<lparr>Start = 3, Stop = 10, Padding = 0\<rparr>,
                Lines := [\<lparr>Start = 11, Stop = 15, Padding = 0\<rparr>], parent := Some 0\<rparr>),
      brk = 2,
      source = ''```unknown'' @ [CHR 0x0A] @ ''foo'' @ [CHR 0x0A] @ ''```'' @ [CHR 0x0A],
      PipeFuncs = [''banana'' \<mapsto> banana], sink = [], calls = []\<rparr>"

text \<open>The same document with the block already a \<^verbatim>\<open>pfBlock\<close>, its tag not registered.\<close>

definition docStale :: world where
  "docStale = docUnknown\<lparr>heap := (heap docUnknown)(1 := (heap docUnknown 1)\<lparr>ntype := PfBlock\<rparr>)\<rparr>"

text \<open>A paragraph followed by a fenced block tagged \<^verbatim>\<open>banana\<close>.\<close>

definition docMixed :: world where
  "docMixed =
     \<lparr>heap = (\<lambda>_. emptyNode)
        (0 := emptyNode\<lparr>ntype := Document, firstChild := Some 1, lastChild := Some 2,
                childCount := 2\<rparr>,
         1 := emptyNode\<lparr>ntype := OtherNode 1,
                Lines := [\<lparr>Start = 0, Stop = 6, Padding = 0\<rparr>], parent := Some 0,
                nextSibling := Some 2\<rparr>,
         2 := emptyNode\<lparr>ntype := FencedCodeBlock,
                Info := Some \<lparr>Start = 11, Stop = 17, Padding = 0\<rparr>,
                Lines := [\<lparr>Start = 18, Stop = 22, Padding = 0\<rparr>], parent := Some 0,
                previousSibling := Some 1\<rparr>),
      brk = 3,
      source = ''lolcat'' @ [CHR 0x0A, CHR 0x0A] @ ''```banana'' @ [CHR 0x0A] @ ''foo''
               @ [CHR 0x0A] @ ''```'' @ [CHR 0x0A],
      PipeFuncs = [''banana'' \<mapsto> banana], sink = [], calls = []\<rparr>"

text \<open>
  A document of two \<^verbatim>\<open>pfBlock\<close> nodes, tagged \<^verbatim>\<open>boom\<close> and \<^verbatim>\<open>banana\<close>, both registered; the
  transformer of the first fails.
\<close>

definition docTagged :: world where
  "docTagged =
     \<lparr>heap = (\<lambda>_. emptyNode)
        (0 := emptyNode\<lparr>ntype := Document, firstChild := Some 1, lastChild := Some 2,
                childCount := 2\<rparr>,
         1 := emptyNode\<lparr>ntype := PfBlock,
                Info := Some \<lparr>Start = 3, Stop = 7, Padding = 0\<rparr>,
                Lines := [\<lparr>Start = 8, Stop = 10, Padding = 0\<rparr>], parent := Some 0,
                nextSibling := Some 2\<rparr>,
         2 := emptyNode\<lparr>ntype := PfBlock,
                Info := Some \<lparr>Start = 17, Stop = 23, Padding = 0\<rparr>,
                Lines := [\<lparr>Start = 24, Stop = 28, Padding = 0\<rparr>], parent := Some 0,
                previousSibling := Some 1\<rparr>),
      brk = 3,
      source = ''```boom'' @ [CHR 0x0A] @ ''x'' @ [CHR 0x0A] @ ''```'' @ [CHR 0x0A]
               @ ''```banana'' @ [CHR 0x0A] @ ''foo'' @ [CHR 0x0A] @ ''```'' @ [CHR 0x0A],
      PipeFuncs = [''boom'' \<mapsto> broken, ''banana'' \<mapsto> banana], sink = [], calls = []\<rparr>"

text \<open>Two fenced blocks, both tagged \<^verbatim>\<open>banana\<close>, with the contents \<^verbatim>\<open>foo\<close> and \<^verbatim>\<open>boo\<close>.\<close>

definition docTwoBananas :: world where
  "docTwoBananas =
     \<lparr>heap = (\<lambda>_. emptyNode)
        (0 := emptyNode\<lparr>ntype := Document, firstChild := Some 1, lastChild := Some 2,
                childCount := 2\<rparr>,
         1 := emptyNode\<lparr>ntype := FencedCodeBlock,
                Info := Some \<lparr>Start = 3, Stop = 9, Padding = 0\<rparr>,
                Lines := [\<lparr>Start = 10, Stop = 14, Padding = 0\<rparr>], parent := Some 0,
                nextSibling := Some 2\<rparr>,
         2 := emptyNode\<lparr>ntype := FencedCodeBlock,
                Info := Some \<lparr>Start = 21, Stop = 27, Padding = 0\<rparr>,
                Lines := [\<lparr>Start = 28, Stop = 32, Padding = 0\<rparr>], parent := Some 0,
                previousSibling := Some 1\<rparr>),
      brk = 3,
      source = ''```banana'' @ [CHR 0x0A] @ ''foo'' @ [CHR 0x0A] @ ''```'' @ [CHR 0x0A]
               @ ''```banana'' @ [CHR 0x0A] @ ''boo'' @ [CHR 0x0A] @ ''```'' @ [CHR 0x0A],
      PipeFuncs = [''banana'' \<mapsto> banana], sink = [], calls = []\<rparr>"

text \<open>
  One fenced block tagged \<^verbatim>\<open>banana\<close> whose content line has a padding of two, as the
  parser gives a line whose indentation it has consumed in part.
\<close>

definition docPadded :: world where
  "docPadded =
     \<lparr>heap = (\<lambda>_. emptyNode)
        (0 := emptyNode\<lparr>ntype := Document, firstChild := Some 1, lastChild := Some 1,
                childCount := 1\<rparr>,
         1 := emptyNode\<lparr>ntype := FencedCodeBlock,
                Info := Some \<lparr>Start = 3, Stop = 9, Padding = 0\<rparr>,
                Lines := [\<lparr>Start = 10, Stop = 14, Padding = 2\<rparr>], parent := Some 0\<rparr>),
      brk = 2,
      source = ''```banana'' @ [CHR 0x0A] @ ''foo'' @ [CHR 0x0A] @ ''```'' @ [CHR 0x0A],
      PipeFuncs = [''banana'' \<mapsto> banana], sink = [], calls = []\<rparr>"

text \<open>What \<^verbatim>\<open>Transform\<close> makes of \<open>docPadded\<close> and of \<open>docMixed\<close>.\<close>

definition docPaddedTagged :: world where
  "docPaddedTagged = (case Transform 4 docPadded 0 of Some (Transformed w) \<Rightarrow> w | _ \<Rightarrow> docPadded)"

definition docMixedTagged :: world where
  "docMixedTagged = (case Transform 5 docMixed 0 of Some (Transformed w) \<Rightarrow> w | _ \<Rightarrow> docMixed)"

subsection \<open>The content of a block, with the buffers in memory\<close>

text \<open>
  \<^verbatim>\<open>RawContent\<close> once more, with Go's byte slices as views of buffers in a memory, to tell a
  copy from an alias. A slice is the part \<^verbatim>\<open>[lo, hi)\<close> of a buffer; buffers from \<open>unused\<close> on
  are not allocated yet.
\<close>

record slice =
  sl_buf :: nat
  sl_lo :: nat
  sl_hi :: nat

record memory =
  cells :: "nat \<Rightarrow> bytes"
  unused :: nat

definition readSlice :: "memory \<Rightarrow> slice \<Rightarrow> bytes" where
  "readSlice m s = take (sl_hi s - sl_lo s) (drop (sl_lo s) (cells m (sl_buf s)))"

text \<open>
  Host: \<^verbatim>\<open>Segment.Value(buffer)\<close>. Without padding it returns \<^verbatim>\<open>buffer[t.Start:t.Stop]\<close>, a view
  of the same buffer; with padding it makes a new buffer of the spaces and the span.
\<close>

definition ValueIn :: "memory \<Rightarrow> Segment \<Rightarrow> slice \<Rightarrow> (memory \<times> slice) option" where
  "ValueIn m t buffer =
     (if Start t \<le> Stop t \<and> Stop t \<le> sl_hi buffer - sl_lo buffer
      then
        (let span = \<lparr>sl_buf = sl_buf buffer, sl_lo = sl_lo buffer + Start t,
                      sl_hi = sl_lo buffer + Stop t\<rparr>
         in if Padding t = 0 then Some (m, span)
            else
              Some (m\<lparr>cells := (cells m)(unused m := replicate (Padding t) (CHR '' '') @ readSlice m span),
                      unused := Suc (unused m)\<rparr>,
                    \<lparr>sl_buf = unused m, sl_lo = 0, sl_hi = Padding t + (Stop t - Start t)\<rparr>))
      else None)"

text \<open>
  \<^verbatim>\<open>var buf bytes.Buffer\<close> has a buffer of its own, \<open>b\<close>; \<^verbatim>\<open>buf.Write(p)\<close> appends the bytes
  seen through \<open>p\<close> to it, and \<^verbatim>\<open>buf.Bytes()\<close> is a view of it.
\<close>

function RawContentIn_loop ::
    "Segment list \<Rightarrow> slice \<Rightarrow> nat \<Rightarrow> nat \<Rightarrow> memory \<Rightarrow> memory option" where
  "RawContentIn_loop lines src i b m =
     (if i < length lines
      then (case ValueIn m (lines ! i) src of
              None \<Rightarrow> None
            | Some (m1, line) \<Rightarrow>
                RawContentIn_loop lines src (Suc i) b
                  (m1\<lparr>cells := (cells m1)(b := cells m1 b @ readSlice m1 line)\<rparr>))
      else Some m)"
  by pat_completeness auto
termination
  by (relation "measure (\<lambda>(lines, src, i, b, m). length lines - i)") auto

definition RawContentIn :: "memory \<Rightarrow> node \<Rightarrow> slice \<Rightarrow> (memory \<times> slice) option" where
  "RawContentIn m b src =
     (let id = unused m
      in case RawContentIn_loop (Lines b) src 0 id (m\<lparr>cells := (cells m)(id := []), unused := Suc id\<rparr>) of
           None \<Rightarrow> None
         | Some m' \<Rightarrow> Some (m', \<lparr>sl_buf = id, sl_lo = 0, sl_hi = length (cells m' id)\<rparr>))"

text \<open>A slice of an allocated buffer that lies within it.\<close>

definition valid_slice :: "memory \<Rightarrow> slice \<Rightarrow> bool" where
  "valid_slice m s = (sl_buf s < unused m \<and> sl_lo s \<le> sl_hi s \<and> sl_hi s \<le> length (cells m (sl_buf s)))"

text \<open>A memory that holds the source of \<open>docPadded\<close> in buffer 0, and the slice of it.\<close>

definition exampleMemory :: memory where
  "exampleMemory = \<lparr>cells = (\<lambda>_. [])(0 := source docPadded), unused = 1\<rparr>"

definition exampleSource :: slice where
  "exampleSource = \<lparr>sl_buf = 0, sl_lo = 0, sl_hi = 18\<rparr>"

section \<open>Properties\<close>

subsection \<open>The walk on fuel is the walk over the tree\<close>

declare RawContent_loop.simps [simp del]

declare RawContentIn_loop.simps [simp del]

lemma walk_keeps:
  "keeps_heap hp walker \<Longrightarrow> walkTree walker t s = Walked st err s' \<Longrightarrow> hp s' = hp s"
  "keeps_heap hp walker \<Longrightarrow> walkForest walker ts s = Walked st err s' \<Longrightarrow> hp s' = hp s"
proof (induction walker t s and walker ts s arbitrary: st err s' and st err s' rule: walkTree_walkForest.induct)
  case (1 walker n ts s)
  note k = "1.prems"(1)
  from "1.prems" obtain status e1 s1 where w1: "walker n True s = Walked status e1 s1"
    by (auto split: walked.splits)
  have h1: "hp s1 = hp s" using k w1 unfolding keeps_heap_def by blast
  show ?case
  proof (cases "e1 \<noteq> None \<or> status = WalkStop")
    case True
    then show ?thesis using "1.prems" w1 h1 by auto
  next
    case False
    obtain st2 e2 s2 where mid: "(if status \<noteq> WalkSkipChildren then walkForest walker ts s1
                   else Walked WalkContinue None s1) = Walked st2 e2 s2"
      using "1.prems" w1 False by (auto split: walked.splits)
    have h2: "hp s2 = hp s1"
    proof (cases "status \<noteq> WalkSkipChildren")
      case True
      then show ?thesis using "1.IH"[OF w1 _ True k, of st2 e2 s2] False mid by auto
    next
      case False
      then show ?thesis using mid by auto
    qed
    show ?thesis
    proof (cases "e2 \<noteq> None \<or> st2 = WalkStop")
      case True
      then show ?thesis using "1.prems" w1 False mid h1 h2 by auto
    next
      case F2: False
      then obtain st3 e3 s3 where w3: "walker n False s2 = Walked st3 e3 s3"
        using "1.prems" w1 False mid by (auto split: walked.splits)
      have "hp s3 = hp s2" using k w3 unfolding keeps_heap_def by blast
      then show ?thesis using "1.prems" w1 False mid h1 h2 F2 w3 by (auto split: if_splits)
    qed
  qed
next
  case (2 walker s)
  then show ?case by simp
next
  case (3 walker t ts s)
  from "3.prems" obtain st1 e1 s1 where w1: "walkTree walker t s = Walked st1 e1 s1"
    by (auto split: walked.splits)
  have h1: "hp s1 = hp s" using "3.IH"(1)[OF "3.prems"(1) w1] by simp
  show ?case
  proof (cases "e1 \<noteq> None \<or> st1 = WalkStop")
    case True
    then show ?thesis using "3.prems" w1 h1 by auto
  next
    case False
    then have "walkForest walker ts s1 = Walked st err s'" using "3.prems" w1 by auto
    from "3.IH"(2)[OF w1 _ "3.prems"(1) this] False h1 show ?thesis by auto
  qed
qed

lemma walk_fuel:
  "keeps_heap hp walker \<Longrightarrow> is_subtree (hp s) n t \<Longrightarrow> cost t \<le> fuel \<Longrightarrow>
     walkHelper fuel hp walker n s = Some (walkTree walker t s)"
  "keeps_heap hp walker \<Longrightarrow> is_chain (hp s) c ts \<Longrightarrow> costs ts \<le> fuel \<Longrightarrow>
     walkChildren fuel hp walker c s = Some (walkForest walker ts s)"
proof (induction walker t s and walker ts s arbitrary: fuel n and fuel c
    rule: walkTree_walkForest.induct)
  case (1 walker a ts s)
  note k = "1.prems"(1)
  from "1.prems"(2) have na: "n = a" and ch: "is_chain (hp s) (firstChild (hp s a)) ts"
    by auto
  from "1.prems"(3) obtain j where fuel: "fuel = Suc j" and j: "costs ts \<le> j"
    by (cases fuel) auto
  show ?case
  proof (cases "walker a True s")
    case Panicked
    then show ?thesis by (simp add: fuel na split: walked.splits)
  next
    case (Walked status e1 s1)
    have h1: "hp s1 = hp s" using k Walked unfolding keeps_heap_def by blast
    show ?thesis
    proof (cases "e1 \<noteq> None \<or> status = WalkStop")
      case True
      then show ?thesis using Walked by (auto simp: fuel na)
    next
      case False
      show ?thesis
      proof (cases "status \<noteq> WalkSkipChildren")
        case True
        have "walkChildren j hp walker (firstChild (hp s1 a)) s1 = Some (walkForest walker ts s1)"
          using "1.IH"[OF Walked _ True k _ j] False ch h1 by auto
        then show ?thesis using Walked False True by (simp add: fuel na split: walked.splits)
      next
        case F: False
        then show ?thesis using Walked False by (simp add: fuel na split: walked.splits)
      qed
    qed
  qed
next
  case (2 walker s)
  then show ?case by (cases fuel; cases c) auto
next
  case (3 walker t ts s)
  note k = "3.prems"(1)
  from "3.prems"(2) obtain a where c: "c = Some a" and st: "is_subtree (hp s) a t"
    and ch: "is_chain (hp s) (nextSibling (hp s a)) ts"
    by (cases c) auto
  from "3.prems"(3) obtain j where fuel: "fuel = Suc j" and j1: "cost t \<le> j" and j2: "costs ts \<le> j"
    by (cases fuel) auto
  have w: "walkHelper j hp walker a s = Some (walkTree walker t s)"
    using "3.IH"(1)[OF k st j1] .
  show ?case
  proof (cases "walkTree walker t s")
    case Panicked
    then show ?thesis using w by (simp add: fuel c split: walked.splits)
  next
    case (Walked st1 e1 s1)
    have h1: "hp s1 = hp s" using walk_keeps(1)[OF k Walked] .
    show ?thesis
    proof (cases "e1 \<noteq> None \<or> st1 = WalkStop")
      case True
      then show ?thesis using w Walked by (auto simp: fuel c)
    next
      case False
      have "walkChildren j hp walker (nextSibling (hp s1 a)) s1 = Some (walkForest walker ts s1)"
        using "3.IH"(2)[OF Walked _ k _ j2] False ch h1 by auto
      then show ?thesis using w Walked False by (simp add: fuel c split: walked.splits)
    qed
  qed
qed

text \<open>What every call of the walker keeps, the walk keeps; this needs no tree.\<close>

lemma walk_invariant:
  "(\<forall>n e s st err s'. walker n e s = Walked st err s' \<longrightarrow> f s' = f s) \<Longrightarrow>
     walkHelper fuel hp walker n s = Some (Walked st err s') \<Longrightarrow> f s' = f s"
  "(\<forall>n e s st err s'. walker n e s = Walked st err s' \<longrightarrow> f s' = f s) \<Longrightarrow>
     walkChildren fuel hp walker c s = Some (Walked st err s') \<Longrightarrow> f s' = f s"
proof (induction fuel hp walker n s and fuel hp walker c s arbitrary: st err s' and st err s'
    rule: walkHelper_walkChildren.induct)
  case (1 hp walker n s)
  then show ?case by simp
next
  case (2 k hp walker n s)
  note inv = "2.prems"(1)
  from "2.prems"(2) obtain status e1 s1 where w1: "walker n True s = Walked status e1 s1"
    by (auto split: walked.splits)
  have f1: "f s1 = f s" using inv w1 by blast
  show ?case
  proof (cases "e1 \<noteq> None \<or> status = WalkStop")
    case True
    then show ?thesis using "2.prems"(2) w1 f1 by auto
  next
    case False
    obtain st2 e2 s2 where mid: "(if status \<noteq> WalkSkipChildren
                   then walkChildren k hp walker (firstChild (hp s1 n)) s1
                   else Some (Walked WalkContinue None s1)) = Some (Walked st2 e2 s2)"
      using "2.prems"(2) w1 False by (auto split: walked.splits option.splits)
    have f2: "f s2 = f s1"
    proof (cases "status \<noteq> WalkSkipChildren")
      case True
      then show ?thesis using "2.IH"[OF w1 _ True inv, of st2 e2 s2] False mid by auto
    next
      case F: False
      then show ?thesis using mid by auto
    qed
    show ?thesis
    proof (cases "e2 \<noteq> None \<or> st2 = WalkStop")
      case True
      then have "s' = s2" using "2.prems"(2) w1 False mid by auto
      then show ?thesis using f1 f2 by simp
    next
      case F2: False
      then obtain st3 e3 s3 where w3: "walker n False s2 = Walked st3 e3 s3"
        using "2.prems"(2) w1 False mid by (auto split: walked.splits)
      have "f s3 = f s2" using inv w3 by blast
      moreover have "s' = s3" using "2.prems"(2) w1 False mid F2 w3 by (auto split: if_splits)
      ultimately show ?thesis using f1 f2 by simp
    qed
  qed
next
  case (3 hp walker c s)
  then show ?case by simp
next
  case (4 k hp walker s)
  then show ?case by simp
next
  case (5 k hp walker c s)
  note inv = "5.prems"(1)
  from "5.prems"(2) obtain st1 e1 s1 where w1: "walkHelper k hp walker c s = Some (Walked st1 e1 s1)"
    by (auto split: walked.splits option.splits)
  have f1: "f s1 = f s" using "5.IH"(1)[OF inv w1] .
  show ?case
  proof (cases "e1 \<noteq> None \<or> st1 = WalkStop")
    case True
    then show ?thesis using "5.prems"(2) w1 f1 by auto
  next
    case False
    then have "walkChildren k hp walker (nextSibling (hp s1 c)) s1 = Some (Walked st err s')"
      using "5.prems"(2) w1 by auto
    from "5.IH"(2)[OF w1 _ _ inv this] False f1 show ?thesis by auto
  qed
qed

subsection \<open>The content of a block\<close>

lemma RawContent_loop_eq:
  "RawContent_loop lines src i buf =
     map_option (\<lambda>r. buf @ concat r) (those (map (\<lambda>l. Value l src) (drop i lines)))"
proof (induction lines src i buf rule: RawContent_loop.induct)
  case (1 lines src i buf)
  show ?case
  proof (cases "i < length lines")
    case True
    then have d: "drop i lines = lines ! i # drop (Suc i) lines"
      by (simp add: Cons_nth_drop_Suc)
    show ?thesis
    proof (cases "Value (lines ! i) src")
      case None
      then show ?thesis using True d by (subst RawContent_loop.simps) simp
    next
      case (Some line)
      then show ?thesis using True d "1.IH"[OF True Some]
        by (subst RawContent_loop.simps) (simp add: option.map_comp comp_def)
    qed
  next
    case False
    then show ?thesis by (subst RawContent_loop.simps) simp
  qed
qed

lemma RawContent_eq:
  "RawContent b src = map_option concat (those (map (\<lambda>l. Value l src) (Lines b)))"
  by (simp add: RawContent_def RawContent_loop_eq)

lemma Value_in_buffer:
  "Start l \<le> Stop l \<and> Stop l \<le> length src \<Longrightarrow>
     Value l src = Some (replicate (Padding l) (CHR '' '') @ sourceSpan l src)"
  by (simp add: Value_def sourceSpan_def)

lemma those_map_Some: "those (map (\<lambda>x. Some (f x)) xs) = Some (map f xs)"
  by (induction xs) simp_all

lemma RawContent_in_buffer:
  assumes "\<forall>l\<in>set (Lines b). Start l \<le> Stop l \<and> Stop l \<le> length src"
  shows "RawContent b src
           = Some (concat (map (\<lambda>l. replicate (Padding l) (CHR '' '') @ sourceSpan l src) (Lines b)))"
proof -
  have eq: "map (\<lambda>l. Value l src) (Lines b)
          = map (\<lambda>l. Some (replicate (Padding l) (CHR '' '') @ sourceSpan l src)) (Lines b)"
    using assms by (intro map_cong refl) (simp add: Value_in_buffer)
  show ?thesis unfolding RawContent_eq eq those_map_Some by simp
qed

subsection \<open>The render walk and the walk of the transformer\<close>

lemma nodeRenderer_keeps_heap: "keeps_heap heap (nodeRenderer dflt)"
  by (auto simp: keeps_heap_def nodeRenderer_def renderFenced_def hostFunc_def
      split: if_splits option.splits walked.splits sum.splits)

lemma plainRenderer_keeps_heap: "keeps_heap heap (plainRenderer dflt)"
  by (auto simp: keeps_heap_def plainRenderer_def hostFunc_def
      split: if_splits option.splits walked.splits sum.splits)

lemma Render_tree:
  assumes "is_subtree (heap w) doc t" and "cost t \<le> fuel"
  shows "Render fuel dflt w doc = Some (walkTree (nodeRenderer dflt) t w)"
  unfolding Render_def Walk_def
  using walk_fuel(1)[OF nodeRenderer_keeps_heap assms] .

lemma plainRender_tree:
  assumes "is_subtree (heap w) doc t" and "cost t \<le> fuel"
  shows "plainRender fuel dflt w doc = Some (walkTree (plainRenderer dflt) t w)"
  unfolding plainRender_def Walk_def
  using walk_fuel(1)[OF plainRenderer_keeps_heap assms] .

lemma collect_keeps_heap: "keeps_heap (\<lambda>s. heap (fst s)) collect"
  by (auto simp: keeps_heap_def collect_def split: if_splits)

lemma walk_collect:
  "walkTree collect t (w, fbs) = Walked WalkContinue None (w, fbs @ collected (heap w) t)"
  "walkForest collect ts (w, fbs) = Walked WalkContinue None (w, fbs @ collecteds (heap w) ts)"
  by (induction t and ts arbitrary: fbs and fbs rule: nodes_nodess.induct)
    (simp_all add: collect_def)

lemma Walk_collect:
  assumes "is_subtree (heap w) doc t" and "cost t \<le> fuel"
  shows "Walk fuel (\<lambda>s. heap (fst s)) collect doc (w, []) =
           Some (Walked WalkContinue None (w, collected (heap w) t))"
  using walk_fuel(1)[OF collect_keeps_heap, of "(w, [])" doc t fuel] assms
  by (simp add: Walk_def walk_collect)

lemma Transform_tree:
  assumes "is_subtree (heap w) doc t" and "cost t \<le> fuel"
  shows "Transform fuel w doc =
           (case replaceBlocks doc w (collected (heap w) t) of
              None \<Rightarrow> Some TransformPanicked
            | Some w' \<Rightarrow> Some (Transformed w'))"
  by (simp add: Transform_def Walk_collect[OF assms])

lemma set_collected:
  "set (collected h t) = {n \<in> set (nodes t). ntype (h n) = FencedCodeBlock}"
  "set (collecteds h ts) = {n \<in> set (nodess ts). ntype (h n) = FencedCodeBlock}"
  by (induction t and ts rule: nodes_nodess.induct) auto

lemma replaceBlocks_no_match:
  "(\<forall>fb\<in>set fbs. \<exists>lang. Language (heap w fb) (source w) = Some lang \<and> PipeFuncs w lang = None)
     \<Longrightarrow> replaceBlocks doc w fbs = Some w"
  by (induction fbs) auto

lemma walk_agree:
  "keeps_heap hp walker \<Longrightarrow>
     (\<forall>n\<in>set (nodes t). \<forall>e s'. hp s' = hp s \<longrightarrow> walker n e s' = walker' n e s') \<Longrightarrow>
     walkTree walker t s = walkTree walker' t s"
  "keeps_heap hp walker \<Longrightarrow>
     (\<forall>n\<in>set (nodess ts). \<forall>e s'. hp s' = hp s \<longrightarrow> walker n e s' = walker' n e s') \<Longrightarrow>
     walkForest walker ts s = walkForest walker' ts s"
proof (induction walker t s and walker ts s rule: walkTree_walkForest.induct)
  case (1 walker n ts s)
  note k = "1.prems"(1)
  have same: "\<And>e s'. hp s' = hp s \<Longrightarrow> walker n e s' = walker' n e s'"
    using "1.prems"(2) by simp
  show ?case
  proof (cases "walker n True s")
    case Panicked
    then show ?thesis using same[of s True] by simp
  next
    case (Walked status e1 s1)
    have h1: "hp s1 = hp s" using k Walked unfolding keeps_heap_def by blast
    have w1': "walker' n True s = Walked status e1 s1" using same[of s True] Walked by simp
    show ?thesis
    proof (cases "e1 \<noteq> None \<or> status = WalkStop")
      case True
      then show ?thesis using Walked w1' by auto
    next
      case False
      show ?thesis
      proof (cases "status \<noteq> WalkSkipChildren")
        case True
        have f: "walkForest walker ts s1 = walkForest walker' ts s1"
          using "1.IH"[OF Walked _ True k] False "1.prems"(2) h1 by auto
        show ?thesis
        proof (cases "walkForest walker ts s1")
          case Panicked
          then have "walkForest walker' ts s1 = Panicked" using f by simp
          then show ?thesis using Walked w1' False True Panicked by simp
        next
          case W2: (Walked st2 e2 s2)
          have W2': "walkForest walker' ts s1 = Walked st2 e2 s2" using f W2 by simp
          have "hp s2 = hp s1" using walk_keeps(2)[OF k W2] .
          then have "walker n False s2 = walker' n False s2" using same h1 by simp
          then show ?thesis using Walked w1' False True W2 W2' by simp
        qed
      next
        case F: False
        have "walker n False s1 = walker' n False s1" using same h1 by simp
        then show ?thesis using Walked w1' False F by simp
      qed
    qed
  qed
next
  case (2 walker s)
  then show ?case by simp
next
  case (3 walker t ts s)
  note k = "3.prems"(1)
  have t: "walkTree walker t s = walkTree walker' t s"
    using "3.IH"(1)[OF k] "3.prems"(2) by simp
  show ?case
  proof (cases "walkTree walker t s")
    case Panicked
    then have "walkTree walker' t s = Panicked" using t by simp
    then show ?thesis using Panicked by simp
  next
    case (Walked st1 e1 s1)
    have h1: "hp s1 = hp s" using walk_keeps(1)[OF k Walked] .
    show ?thesis
    proof (cases "e1 \<noteq> None \<or> st1 = WalkStop")
      case True
      have "walkTree walker' t s = Walked st1 e1 s1" using t Walked by simp
      then show ?thesis using True Walked by auto
    next
      case False
      have f: "walkForest walker ts s1 = walkForest walker' ts s1"
        using "3.IH"(2)[OF Walked _ k] False "3.prems"(2) h1 by auto
      have t': "walkTree walker' t s = Walked st1 e1 s1" using t Walked by simp
      show ?thesis using Walked t' False f by simp
    qed
  qed
qed

subsection \<open>What the passes leave alone\<close>

lemma payload_links [simp]:
  "payload (b\<lparr>parent := p\<rparr>) = payload b"
  "payload (b\<lparr>previousSibling := p\<rparr>) = payload b"
  "payload (b\<lparr>nextSibling := p\<rparr>) = payload b"
  "payload (b\<lparr>firstChild := p\<rparr>) = payload b"
  "payload (b\<lparr>lastChild := p\<rparr>) = payload b"
  "payload (b\<lparr>childCount := c\<rparr>) = payload b"
  by (simp_all add: payload_def)

lemma payload_setters [simp]:
  "payload ((SetParent h n v) a) = payload (h a)"
  "payload ((SetPreviousSibling h n v) a) = payload (h a)"
  "payload ((SetNextSibling h n v) a) = payload (h a)"
  by (simp_all add: SetParent_def SetPreviousSibling_def SetNextSibling_def)

lemma payload_RemoveChild [simp]: "payload ((RemoveChild h n self v) a) = payload (h a)"
  by (simp add: RemoveChild_def Let_def split: option.splits)

lemma payload_ensureIsolated [simp]: "payload ((ensureIsolated h v) a) = payload (h a)"
  by (simp add: ensureIsolated_def split: option.splits)

lemma payload_InsertBefore [simp]:
  "payload ((InsertBefore h n self v1 insertee) a) = payload (h a)"
  by (simp add: InsertBefore_def Let_def split: option.splits)

lemma payload_ReplaceChild [simp]:
  "payload ((ReplaceChild h n self v1 insertee) a) = payload (h a)"
  by (simp add: ReplaceChild_def)


lemma replaceBlocks_frame:
  "replaceBlocks doc w fbs = Some w' \<Longrightarrow>
     source w' = source w \<and> PipeFuncs w' = PipeFuncs w \<and> sink w' = sink w
     \<and> calls w' = calls w \<and> brk w \<le> brk w'
     \<and> (\<forall>a<brk w. payload (heap w' a) = payload (heap w a))"
proof (induction fbs arbitrary: w)
  case Nil
  then show ?case by simp
next
  case (Cons fb fbs)
  from Cons.prems obtain lang where lang: "Language (heap w fb) (source w) = Some lang"
    by (auto split: option.splits)
  show ?case
  proof (cases "PipeFuncs w lang")
    case None
    then show ?thesis using Cons lang by simp
  next
    case (Some f)
    define w1 where "w1 = w\<lparr>heap := ReplaceChild ((heap w)(brk w := (heap w fb)\<lparr>ntype := PfBlock\<rparr>))
                                    doc (parent (heap w fb)) fb (brk w),
                         brk := Suc (brk w)\<rparr>"
    have r: "replaceBlocks doc w1 fbs = Some w'"
      using Cons.prems lang Some by (simp add: w1_def Let_def)
    from Cons.IH[OF r] show ?thesis by (auto simp: w1_def)
  qed
qed




lemma Transform_frame:
  assumes "Transform fuel w doc = Some (Transformed w')"
  shows "source w' = source w \<and> PipeFuncs w' = PipeFuncs w \<and> sink w' = sink w
         \<and> calls w' = calls w"
proof -
  from assms obtain st w1 fbs where
    walk: "Walk fuel (\<lambda>s. heap (fst s)) collect doc (w, []) = Some (Walked st None (w1, fbs))"
    and r: "replaceBlocks doc w1 fbs = Some w'"
    by (auto simp: Transform_def split: option.splits walked.splits transformed.splits)
  have "\<forall>n e s st err s'. collect n e s = Walked st err s' \<longrightarrow> fst s' = fst s"
    by (auto simp: collect_def split: if_splits)
  from walk_invariant(1)[OF this walk[unfolded Walk_def]] have "w1 = w" by simp
  then show ?thesis using replaceBlocks_frame[OF r] by simp
qed

lemma renderFenced_frame:
  "renderFenced w n entering = Walked st err w' \<Longrightarrow>
     source w' = source w \<and> PipeFuncs w' = PipeFuncs w \<and> heap w' = heap w \<and> brk w' = brk w"
  by (auto simp: renderFenced_def split: if_splits option.splits sum.splits)

lemma nodeRenderer_frame:
  "nodeRenderer dflt n entering w = Walked st err w' \<Longrightarrow>
     source w' = source w \<and> PipeFuncs w' = PipeFuncs w \<and> heap w' = heap w \<and> brk w' = brk w"
  using renderFenced_frame
  by (auto simp: nodeRenderer_def hostFunc_def split: if_splits walked.splits)

lemma Render_frame:
  assumes "Render fuel dflt w doc = Some (Walked st err w')"
  shows "source w' = source w \<and> PipeFuncs w' = PipeFuncs w \<and> heap w' = heap w"
proof -
  let ?f = "\<lambda>w. (source w, PipeFuncs w, heap w)"
  have "\<forall>n e s st err s'. nodeRenderer dflt n e s = Walked st err s' \<longrightarrow> ?f s' = ?f s"
    using nodeRenderer_frame by blast
  from walk_invariant(1)[OF this assms[unfolded Render_def Walk_def]] show ?thesis by simp
qed

subsection \<open>Facts about the example documents\<close>

lemma Language_docTagged:
  "Language (heap docTagged 1) (source docTagged) = Some ''boom''"
  "Language (heap docTagged 2) (source docTagged) = Some ''banana''"
  by (simp_all add: docTagged_def emptyNode_def Language_def Value_def)

lemma RawContent_docTagged:
  "RawContent (heap docTagged 1) (source docTagged) = Some (''x'' @ [CHR 0x0A])"
  "RawContent (heap docTagged 2) (source docTagged) = Some (''foo'' @ [CHR 0x0A])"
  by (simp_all add: docTagged_def emptyNode_def RawContent_eq Value_def)

lemma ntype_docTagged:
  "ntype (heap docTagged 1) = PfBlock"
  "ntype (heap docTagged 2) = PfBlock"
  by (simp_all add: docTagged_def emptyNode_def)

lemma PipeFuncs_docTagged:
  "PipeFuncs docTagged ''boom'' = Some broken"
  "PipeFuncs docTagged ''banana'' = Some banana"
  by (simp_all add: docTagged_def)

text \<open>
  The repository's tests \<^verbatim>\<open>RenderFooAsFaa\<close> and
  \<^verbatim>\<open>UnregisteredTransformerRendersLikeNormalFencedBlock\<close>, run on the model (with the
  example host's markup for the second).
\<close>

lemma scenario_RenderFooAsFaa:
  "rendered (Convert 4 exampleHost docBanana 0) = Some (None, ''faa'' @ [CHR 0x0A])"
  by code_simp

lemma scenario_Unregistered:
  "rendered (Convert 4 exampleHost docUnknown 0)
     = Some (None, ''<pre>foo'' @ [CHR 0x0A] @ ''</pre>'')"
  by code_simp

lemma facts_docStale:
  "ntype (heap docStale 1) = PfBlock"
  "Language (heap docStale 1) (source docStale) = Some ''unknown''"
  "PipeFuncs docStale ''unknown'' = None"
  "firstChild (heap docStale 1) = None"
  by (simp_all add: docStale_def docUnknown_def emptyNode_def Language_def Value_def)

lemma tree_docUnknown: "is_subtree (heap docUnknown) 0 (Tree 0 [Tree 1 []])"
  by (simp add: docUnknown_def emptyNode_def)

lemma facts_docUnknown:
  "ntype (heap docUnknown 0) = Document"
  "ntype (heap docUnknown 1) = FencedCodeBlock"
  "Language (heap docUnknown 1) (source docUnknown) = Some ''unknown''"
  "PipeFuncs docUnknown ''unknown'' = None"
  by (simp_all add: docUnknown_def emptyNode_def Language_def Value_def)


lemma Transform_docMixed: "Transform 5 docMixed 0 = Some (Transformed docMixedTagged)"
proof -
  have "case Transform 5 docMixed 0 of Some (Transformed w) \<Rightarrow> True | _ \<Rightarrow> False"
    by code_simp
  then show ?thesis
    by (auto simp: docMixedTagged_def split: option.splits transformed.splits)
qed


lemma tree_docMixedTagged: "is_subtree (heap docMixedTagged) 0 (Tree 0 [Tree 4 []])"
  by code_simp

lemma facts_docMixedTagged:
  "ntype (heap docMixedTagged 0) = Document"
  "ntype (heap docMixedTagged 4) = PfBlock"
  "Language (heap docMixedTagged 4) (source docMixedTagged) = Some ''banana''"
  by code_simp+

lemma content_docMixedTagged:
  "Lines (heap docMixedTagged 4) = [\<lparr>Start = 18, Stop = 22, Padding = 0\<rparr>]"
  "length (source docMixedTagged) = 26"
  "concat (map (\<lambda>l. sourceSpan l (source docMixedTagged)) (Lines (heap docMixedTagged 4)))
     = ''foo'' @ [CHR 0x0A]"
  by code_simp+

lemma PipeFuncs_docMixedTagged: "PipeFuncs docMixedTagged ''banana'' = Some banana"
  using Transform_frame[OF Transform_docMixed] by (simp add: docMixed_def)

lemma Transform_docPadded: "Transform 4 docPadded 0 = Some (Transformed docPaddedTagged)"
proof -
  have "case Transform 4 docPadded 0 of Some (Transformed w) \<Rightarrow> True | _ \<Rightarrow> False"
    by code_simp
  then show ?thesis
    by (auto simp: docPaddedTagged_def split: option.splits transformed.splits)
qed

lemma facts_docPaddedTagged:
  "ntype (heap docPaddedTagged 3) = PfBlock"
  "Language (heap docPaddedTagged 3) (source docPaddedTagged) = Some ''banana''"
  "Lines (heap docPaddedTagged 3) = [\<lparr>Start = 10, Stop = 14, Padding = 2\<rparr>]"
  "source docPaddedTagged = ''```banana'' @ [CHR 0x0A] @ ''foo'' @ [CHR 0x0A] @ ''```'' @ [CHR 0x0A]"
  "sink docPaddedTagged = []"
  "calls docPaddedTagged = []"
  by code_simp+

lemma PipeFuncs_docPaddedTagged: "PipeFuncs docPaddedTagged ''banana'' = Some banana"
  using Transform_frame[OF Transform_docPadded] by (simp add: docPadded_def)

subsection \<open>The node renderer\<close>

text \<open>
  C6, as stated, fails: the bytes handed to the transformer are not always the
  concatenation of the content lines' byte spans of the source buffer. In \<open>docPadded\<close> the
  one content line spans \<^verbatim>\<open>foo\<close> and its newline and has a padding of two; the transformer
  is invoked with two spaces before these bytes, and its output shows them.
\<close>

theorem transformer_input_counterexample:
  "Language (heap docPadded 1) (source docPadded) = Some ''banana''
   \<and> concat (map (\<lambda>l. sourceSpan l (source docPadded)) (Lines (heap docPadded 1)))
       = ''foo'' @ [CHR 0x0A]
   \<and> map_option calls (convertedWorld (Convert 4 exampleHost docPadded 0))
       = Some [(3, ''banana'', ''  foo'' @ [CHR 0x0A])]
   \<and> rendered (Convert 4 exampleHost docPadded 0) = Some (None, ''  faa'' @ [CHR 0x0A])"
  by code_simp

text \<open>
  C6, amended. The bytes handed to the transformer are the concatenation, in order, of
  the values of the block's content lines: each line's byte span of the source buffer,
  preceded by as many spaces as the segment's padding, and nothing else. \<^verbatim>\<open>renderFenced\<close>
  applies the registered function to exactly these bytes, and what it returns and writes
  is what the function makes of them. Where no line has a padding, the bytes are the
  concatenation of the spans themselves.
\<close>

theorem transformer_input:
  assumes "ntype (heap w n) = PfBlock"
    and "Language (heap w n) (source w) = Some lang"
    and "PipeFuncs w lang = Some pipeFunc"
    and "\<forall>l\<in>set (Lines (heap w n)). Start l \<le> Stop l \<and> Stop l \<le> length (source w)"
    and "raw = concat (map (\<lambda>l. replicate (Padding l) (CHR '' '') @ sourceSpan l (source w))
                         (Lines (heap w n)))"
  shows "RawContent (heap w n) (source w) = Some raw
         \<and> renderFenced w n True =
             (case pipeFunc raw of
                Inl err \<Rightarrow>
                  Walked WalkStop (Some (TransformerError lang err))
                    (w\<lparr>calls := calls w @ [(n, lang, raw)]\<rparr>)
              | Inr content \<Rightarrow>
                  Walked WalkSkipChildren None
                    (w\<lparr>sink := sink w @ content, calls := calls w @ [(n, lang, raw)]\<rparr>))
         \<and> ((\<forall>l\<in>set (Lines (heap w n)). Padding l = 0) \<longrightarrow>
               raw = concat (map (\<lambda>l. sourceSpan l (source w)) (Lines (heap w n))))"
proof (intro conjI impI)
  show r: "RawContent (heap w n) (source w) = Some raw"
    using RawContent_in_buffer[OF assms(4)] assms(5) by simp
  show "renderFenced w n True =
             (case pipeFunc raw of
                Inl err \<Rightarrow>
                  Walked WalkStop (Some (TransformerError lang err))
                    (w\<lparr>calls := calls w @ [(n, lang, raw)]\<rparr>)
              | Inr content \<Rightarrow>
                  Walked WalkSkipChildren None
                    (w\<lparr>sink := sink w @ content, calls := calls w @ [(n, lang, raw)]\<rparr>))"
    using assms(1-3) r by (simp add: renderFenced_def)
  assume "\<forall>l\<in>set (Lines (heap w n)). Padding l = 0"
  then have "map (\<lambda>l. replicate (Padding l) (CHR '' '') @ sourceSpan l (source w)) (Lines (heap w n))
               = map (\<lambda>l. sourceSpan l (source w)) (Lines (heap w n))"
    by (intro map_cong refl) simp
  then show "raw = concat (map (\<lambda>l. sourceSpan l (source w)) (Lines (heap w n)))"
    unfolding assms(5) by (rule arg_cong)
qed

theorem transformer_input_witness:
  "RawContent (heap docPaddedTagged 3) (source docPaddedTagged) = Some (''  foo'' @ [CHR 0x0A])
   \<and> renderFenced docPaddedTagged 3 True =
       Walked WalkSkipChildren None
         (docPaddedTagged\<lparr>sink := sink docPaddedTagged @ (''  faa'' @ [CHR 0x0A]),
            calls := calls docPaddedTagged @ [(3, ''banana'', ''  foo'' @ [CHR 0x0A])]\<rparr>)
   \<and> RawContent (heap docMixedTagged 4) (source docMixedTagged)
       = Some (concat (map (\<lambda>l. sourceSpan l (source docMixedTagged))
                        (Lines (heap docMixedTagged 4))))
   \<and> concat (map (\<lambda>l. sourceSpan l (source docMixedTagged)) (Lines (heap docMixedTagged 4)))
       = ''foo'' @ [CHR 0x0A]"
proof -
  have b: "\<forall>l\<in>set (Lines (heap docPaddedTagged 3)).
             Start l \<le> Stop l \<and> Stop l \<le> length (source docPaddedTagged)"
    by (simp add: facts_docPaddedTagged)
  have r: "''  foo'' @ [CHR 0x0A]
             = concat (map (\<lambda>l. replicate (Padding l) (CHR '' '') @ sourceSpan l (source docPaddedTagged))
                         (Lines (heap docPaddedTagged 3)))"
    by (simp add: facts_docPaddedTagged sourceSpan_def numeral_2_eq_2)
  have f: "banana (''  foo'' @ [CHR 0x0A]) = Inr (''  faa'' @ [CHR 0x0A])"
    by (simp add: banana_def)
  have padded: "RawContent (heap docPaddedTagged 3) (source docPaddedTagged)
                  = Some (''  foo'' @ [CHR 0x0A])
    \<and> renderFenced docPaddedTagged 3 True =
       Walked WalkSkipChildren None
         (docPaddedTagged\<lparr>sink := sink docPaddedTagged @ (''  faa'' @ [CHR 0x0A]),
            calls := calls docPaddedTagged @ [(3, ''banana'', ''  foo'' @ [CHR 0x0A])]\<rparr>)"
    using transformer_input[OF facts_docPaddedTagged(1,2) PipeFuncs_docPaddedTagged b r] f
    by simp
  have b': "\<forall>l\<in>set (Lines (heap docMixedTagged 4)).
             Start l \<le> Stop l \<and> Stop l \<le> length (source docMixedTagged)"
    by (simp add: content_docMixedTagged)
  have z: "\<forall>l\<in>set (Lines (heap docMixedTagged 4)). Padding l = 0"
    by (simp add: content_docMixedTagged)
  have plain: "RawContent (heap docMixedTagged 4) (source docMixedTagged)
       = Some (concat (map (\<lambda>l. sourceSpan l (source docMixedTagged))
                        (Lines (heap docMixedTagged 4))))"
    using transformer_input[OF facts_docMixedTagged(2,3) PipeFuncs_docMixedTagged b' refl] z
    by simp
  show ?thesis using padded plain content_docMixedTagged(3) by simp
qed

text \<open>
  C4. When the transformer invoked for a \<^verbatim>\<open>pfBlock\<close> fails, \<^verbatim>\<open>renderFenced\<close> returns
  \<^verbatim>\<open>WalkStop\<close> with an error that carries the language and the cause, and the output is as
  it was. The walk ends there: the visit of the node returns the error without the call
  on leaving, and the loop over the siblings returns it without going on to the next one.
\<close>

theorem transformer_failure_halts:
  assumes "ntype (heap w n) = PfBlock"
    and "Language (heap w n) (source w) = Some lang"
    and "PipeFuncs w lang = Some pipeFunc"
    and "RawContent (heap w n) (source w) = Some raw"
    and "pipeFunc raw = Inl cause"
  shows "renderFenced w n True =
           Walked WalkStop (Some (TransformerError lang cause))
             (w\<lparr>calls := calls w @ [(n, lang, raw)]\<rparr>)
         \<and> sink (w\<lparr>calls := calls w @ [(n, lang, raw)]\<rparr>) = sink w
         \<and> walkHelper (Suc k) heap (nodeRenderer dflt) n w =
             Some (Walked WalkStop (Some (TransformerError lang cause))
                    (w\<lparr>calls := calls w @ [(n, lang, raw)]\<rparr>))
         \<and> walkChildren (Suc (Suc k)) heap (nodeRenderer dflt) (Some n) w =
             Some (Walked WalkStop (Some (TransformerError lang cause))
                    (w\<lparr>calls := calls w @ [(n, lang, raw)]\<rparr>))"
  using assms by (simp add: nodeRenderer_def renderFenced_def)

theorem transformer_failure_halts_witness:
  "renderFenced docTagged 1 True =
     Walked WalkStop (Some (TransformerError ''boom'' ''exit status 1''))
       (docTagged\<lparr>calls := calls docTagged @ [(1, ''boom'', ''x'' @ [CHR 0x0A])]\<rparr>)
   \<and> sink (docTagged\<lparr>calls := calls docTagged @ [(1, ''boom'', ''x'' @ [CHR 0x0A])]\<rparr>)
       = sink docTagged
   \<and> walkHelper (Suc 0) heap (nodeRenderer exampleHost) 1 docTagged =
       Some (Walked WalkStop (Some (TransformerError ''boom'' ''exit status 1''))
              (docTagged\<lparr>calls := calls docTagged @ [(1, ''boom'', ''x'' @ [CHR 0x0A])]\<rparr>))
   \<and> walkChildren (Suc (Suc 0)) heap (nodeRenderer exampleHost) (Some 1) docTagged =
       Some (Walked WalkStop (Some (TransformerError ''boom'' ''exit status 1''))
              (docTagged\<lparr>calls := calls docTagged @ [(1, ''boom'', ''x'' @ [CHR 0x0A])]\<rparr>))"
proof -
  have b: "broken (''x'' @ [CHR 0x0A]) = Inl ''exit status 1''"
    by (simp add: broken_def)
  show ?thesis
    using transformer_failure_halts[OF ntype_docTagged(1) Language_docTagged(1)
        PipeFuncs_docTagged(1) RawContent_docTagged(1) b] .
qed

text \<open>
  C5, as stated, fails: a \<^verbatim>\<open>pfBlock\<close> whose language is not registered is not rendered the
  way the host renders a fenced code block. In \<open>docStale\<close> the block renders as nothing,
  while the host's rendering of the same block in \<open>docUnknown\<close> is the \<^verbatim>\<open><pre>\<close> markup.
\<close>

theorem lookup_miss_counterexample:
  "ntype (heap docStale 1) = PfBlock
   \<and> Language (heap docStale 1) (source docStale) = Some ''unknown''
   \<and> PipeFuncs docStale ''unknown'' = None
   \<and> map_option sink (finalWorld (Render 4 exampleHost docStale 0)) = Some []
   \<and> map_option sink (finalWorld (plainRender 4 exampleHost docUnknown 0))
       = Some (''<pre>foo'' @ [CHR 0x0A] @ ''</pre>'')"
proof -
  have a: "map_option sink (finalWorld (Render 4 exampleHost docStale 0)) = Some []"
    by code_simp
  have b: "map_option sink (finalWorld (plainRender 4 exampleHost docUnknown 0))
       = Some (''<pre>foo'' @ [CHR 0x0A] @ ''</pre>'')"
    by code_simp
  show ?thesis using facts_docStale a b by simp
qed

text \<open>
  C5, amended. When the lookup of the language of a \<^verbatim>\<open>pfBlock\<close> misses, \<^verbatim>\<open>renderFenced\<close>
  returns \<^verbatim>\<open>WalkContinue\<close> without an error, on entering and on leaving, and leaves the
  state as it was. The renderer dispatches on the node kind and \<^verbatim>\<open>pfKind\<close> has no other
  renderer, so the visit of a childless \<^verbatim>\<open>pfBlock\<close> writes nothing at all.
\<close>

theorem lookup_miss_continues:
  assumes "ntype (heap w n) = PfBlock"
    and "Language (heap w n) (source w) = Some lang"
    and "PipeFuncs w lang = None"
  shows "renderFenced w n entering = Walked WalkContinue None w
         \<and> (firstChild (heap w n) = None \<longrightarrow>
              walkHelper (Suc (Suc k)) heap (nodeRenderer dflt) n w
                = Some (Walked WalkContinue None w))"
  using assms by (simp add: nodeRenderer_def renderFenced_def)

theorem lookup_miss_continues_witness:
  "renderFenced docStale 1 True = Walked WalkContinue None docStale
   \<and> walkHelper (Suc (Suc 0)) heap (nodeRenderer exampleHost) 1 docStale
       = Some (Walked WalkContinue None docStale)"
  using lookup_miss_continues[OF facts_docStale(1,2,3), of True 0 exampleHost] facts_docStale(4)
  by simp

subsection \<open>The AST transformer\<close>

text \<open>
  C7. In a document that holds no \<^verbatim>\<open>pfBlock\<close> and in which no fenced code block has a
  registered language, \<^verbatim>\<open>Transform\<close> returns and leaves the whole state, the tree
  included, as it was, and the conversion with the extension is the conversion by the
  host alone: the same result, the same output, whatever the host's renderers are.
\<close>

theorem untagged_document_unchanged:
  assumes "is_subtree (heap w) doc t" and "cost t \<le> fuel"
    and "\<forall>n\<in>set (nodes t). ntype (heap w n) \<noteq> PfBlock
           \<and> (ntype (heap w n) = FencedCodeBlock \<longrightarrow>
                (\<exists>lang. Language (heap w n) (source w) = Some lang \<and> PipeFuncs w lang = None))"
  shows "Transform fuel w doc = Some (Transformed w)
         \<and> Convert fuel dflt w doc = plainConvert fuel dflt w doc
         \<and> Convert fuel dflt w doc \<noteq> None"
proof -
  have "\<forall>fb\<in>set (collected (heap w) t).
          \<exists>lang. Language (heap w fb) (source w) = Some lang \<and> PipeFuncs w lang = None"
    using assms(3) by (auto simp: set_collected)
  then have tr: "Transform fuel w doc = Some (Transformed w)"
    by (simp add: Transform_tree[OF assms(1,2)] replaceBlocks_no_match)
  have "\<forall>n\<in>set (nodes t). \<forall>e (s'::world). heap s' = heap w \<longrightarrow>
          nodeRenderer dflt n e s' = plainRenderer dflt n e s'"
  proof (intro ballI allI impI)
    fix n e and s' :: world assume "n \<in> set (nodes t)" and "heap s' = heap w"
    then have "ntype (heap s' n) \<noteq> PfBlock" using assms(3) by simp
    then show "nodeRenderer dflt n e s' = plainRenderer dflt n e s'"
      by (cases "ntype (heap s' n)") (simp_all add: nodeRenderer_def plainRenderer_def)
  qed
  then have "walkTree (nodeRenderer dflt) t w = walkTree (plainRenderer dflt) t w"
    using walk_agree(1)[OF nodeRenderer_keeps_heap] by blast
  then have "Render fuel dflt w doc = plainRender fuel dflt w doc"
    by (simp add: Render_tree[OF assms(1,2)] plainRender_tree[OF assms(1,2)])
  then have "Convert fuel dflt w doc = plainConvert fuel dflt w doc"
    by (simp add: Convert_def plainConvert_def tr)
  moreover have "Convert fuel dflt w doc \<noteq> None"
    by (simp add: Convert_def tr Render_tree[OF assms(1,2)] split: walked.splits)
  ultimately show ?thesis using tr by simp
qed

theorem untagged_document_unchanged_witness:
  "Transform 4 docUnknown 0 = Some (Transformed docUnknown)
   \<and> Convert 4 exampleHost docUnknown 0 = plainConvert 4 exampleHost docUnknown 0
   \<and> Convert 4 exampleHost docUnknown 0 \<noteq> None"
proof -
  have c: "cost (Tree 0 [Tree 1 []]) \<le> 4" by simp
  have n: "\<forall>n\<in>set (nodes (Tree 0 [Tree 1 []])). ntype (heap docUnknown n) \<noteq> PfBlock
           \<and> (ntype (heap docUnknown n) = FencedCodeBlock \<longrightarrow>
                (\<exists>lang. Language (heap docUnknown n) (source docUnknown) = Some lang
                   \<and> PipeFuncs docUnknown lang = None))"
    using facts_docUnknown by simp
  show ?thesis using untagged_document_unchanged[OF tree_docUnknown c n] .
qed

text \<open>
  C8. Over a tree in which no fenced code block with a registered language is left,
  whatever \<^verbatim>\<open>pfBlock\<close> nodes it holds, the walk of \<^verbatim>\<open>Transform\<close> collects fenced code
  blocks only, never a \<^verbatim>\<open>pfBlock\<close>, and \<^verbatim>\<open>Transform\<close> replaces nothing: it returns the state
  it was given. The witness is the second run of \<^verbatim>\<open>Transform\<close> over the tree that its first
  run made of \<open>docMixed\<close>, whose \<^verbatim>\<open>pfBlock\<close> is tagged with the registered \<^verbatim>\<open>banana\<close>, and a
  run over \<open>docUnknown\<close>, whose fenced block is collected and left alone.
\<close>

theorem tagger_idempotent:
  assumes "is_subtree (heap w) doc t" and "cost t \<le> fuel"
    and "\<forall>n\<in>set (nodes t). ntype (heap w n) = FencedCodeBlock \<longrightarrow>
           (\<exists>lang. Language (heap w n) (source w) = Some lang \<and> PipeFuncs w lang = None)"
  shows "Walk fuel (\<lambda>s. heap (fst s)) collect doc (w, [])
           = Some (Walked WalkContinue None (w, collected (heap w) t))
         \<and> (\<forall>fb\<in>set (collected (heap w) t). ntype (heap w fb) \<noteq> PfBlock)
         \<and> Transform fuel w doc = Some (Transformed w)"
proof -
  have "\<forall>fb\<in>set (collected (heap w) t).
          \<exists>lang. Language (heap w fb) (source w) = Some lang \<and> PipeFuncs w lang = None"
    using assms(3) by (auto simp: set_collected)
  then have "Transform fuel w doc = Some (Transformed w)"
    by (simp add: Transform_tree[OF assms(1,2)] replaceBlocks_no_match)
  moreover have "\<forall>fb\<in>set (collected (heap w) t). ntype (heap w fb) \<noteq> PfBlock"
    by (auto simp: set_collected)
  ultimately show ?thesis using Walk_collect[OF assms(1,2)] by simp
qed

theorem tagger_idempotent_witness:
  "ntype (heap docMixedTagged 4) = PfBlock
   \<and> Language (heap docMixedTagged 4) (source docMixedTagged) = Some ''banana''
   \<and> PipeFuncs docMixedTagged ''banana'' = Some banana
   \<and> Transform 5 docMixed 0 = Some (Transformed docMixedTagged)
   \<and> Walk 4 (\<lambda>s. heap (fst s)) collect 0 (docMixedTagged, [])
       = Some (Walked WalkContinue None (docMixedTagged, []))
   \<and> Transform 4 docMixedTagged 0 = Some (Transformed docMixedTagged)
   \<and> Walk 4 (\<lambda>s. heap (fst s)) collect 0 (docUnknown, [])
       = Some (Walked WalkContinue None (docUnknown, [1, 1]))
   \<and> Transform 4 docUnknown 0 = Some (Transformed docUnknown)"
proof -
  have c: "cost (Tree 0 [Tree 4 []]) \<le> 4" by simp
  have n: "\<forall>n\<in>set (nodes (Tree 0 [Tree 4 []])).
             ntype (heap docMixedTagged n) = FencedCodeBlock \<longrightarrow>
               (\<exists>lang. Language (heap docMixedTagged n) (source docMixedTagged) = Some lang
                  \<and> PipeFuncs docMixedTagged lang = None)"
    using facts_docMixedTagged by simp
  have e: "collected (heap docMixedTagged) (Tree 0 [Tree 4 []]) = []"
    using facts_docMixedTagged by simp
  have c': "cost (Tree 0 [Tree 1 []]) \<le> 4" by simp
  have n': "\<forall>n\<in>set (nodes (Tree 0 [Tree 1 []])).
             ntype (heap docUnknown n) = FencedCodeBlock \<longrightarrow>
               (\<exists>lang. Language (heap docUnknown n) (source docUnknown) = Some lang
                  \<and> PipeFuncs docUnknown lang = None)"
    using facts_docUnknown by simp
  have e': "collected (heap docUnknown) (Tree 0 [Tree 1 []]) = [1, 1]"
    using facts_docUnknown by simp
  show ?thesis
    using tagger_idempotent[OF tree_docMixedTagged c n] e facts_docMixedTagged
      PipeFuncs_docMixedTagged Transform_docMixed
      tagger_idempotent[OF tree_docUnknown c' n'] e'
    by simp
qed



subsection \<open>The source and the registry\<close>

lemma take_drop_take: "b \<le> n \<Longrightarrow> take (b - a) (drop a (take n xs)) = take (b - a) (drop a xs)"
  by (simp add: drop_take min_def)

lemma readSlice_span:
  assumes "Start t \<le> Stop t" and "Stop t \<le> sl_hi src - sl_lo src"
  shows "readSlice m \<lparr>sl_buf = sl_buf src, sl_lo = sl_lo src + Start t, sl_hi = sl_lo src + Stop t\<rparr>
           = take (Stop t - Start t) (drop (Start t) (readSlice m src))"
  using assms by (simp add: readSlice_def take_drop_take add.commute)

lemma length_readSlice:
  "sl_lo s \<le> sl_hi s \<Longrightarrow> sl_hi s \<le> length (cells m (sl_buf s)) \<Longrightarrow>
     length (readSlice m s) = sl_hi s - sl_lo s"
  by (simp add: readSlice_def)

lemma readSlice_whole: "cells m b = xs \<Longrightarrow> readSlice m \<lparr>sl_buf = b, sl_lo = 0, sl_hi = length xs\<rparr> = xs"
  by (simp add: readSlice_def)

lemma ValueIn_Value:
  assumes "valid_slice m src"
  shows "case ValueIn m t src of
           None \<Rightarrow> Value t (readSlice m src) = None
         | Some (m1, v) \<Rightarrow>
             Value t (readSlice m src) = Some (readSlice m1 v)
             \<and> unused m \<le> unused m1 \<and> (\<forall>id<unused m. cells m1 id = cells m id)"
proof -
  have len: "length (readSlice m src) = sl_hi src - sl_lo src"
    using assms by (simp add: length_readSlice valid_slice_def)
  show ?thesis
  proof (cases "Start t \<le> Stop t \<and> Stop t \<le> sl_hi src - sl_lo src")
    case False
    then show ?thesis by (auto simp: ValueIn_def Value_def len)
  next
    case True
    let ?span = "\<lparr>sl_buf = sl_buf src, sl_lo = sl_lo src + Start t, sl_hi = sl_lo src + Stop t\<rparr>"
    have span: "readSlice m ?span = take (Stop t - Start t) (drop (Start t) (readSlice m src))"
      using True by (simp add: readSlice_span)
    show ?thesis
    proof (cases "Padding t = 0")
      case P: True
      then show ?thesis using True span by (simp add: ValueIn_def Value_def len Let_def)
    next
      case P: False
      let ?xs = "replicate (Padding t) (CHR '' '') @ readSlice m ?span"
      let ?m1 = "m\<lparr>cells := (cells m)(unused m := ?xs), unused := Suc (unused m)\<rparr>"
      have "length (readSlice m ?span) = Stop t - Start t"
        using True assms by (auto simp: readSlice_def valid_slice_def)
      then have l: "Padding t + (Stop t - Start t) = length ?xs" by simp
      have "readSlice ?m1 \<lparr>sl_buf = unused m, sl_lo = 0, sl_hi = length ?xs\<rparr> = ?xs"
        by (rule readSlice_whole) simp
      then have r: "readSlice ?m1 \<lparr>sl_buf = unused m, sl_lo = 0,
                        sl_hi = Padding t + (Stop t - Start t)\<rparr> = ?xs"
        unfolding l .
      have v: "ValueIn m t src = Some (?m1, \<lparr>sl_buf = unused m, sl_lo = 0,
                        sl_hi = Padding t + (Stop t - Start t)\<rparr>)"
        using True P by (simp add: ValueIn_def Let_def)
      have "Value t (readSlice m src) = Some ?xs"
        using True P span by (simp add: Value_def len)
      then show ?thesis unfolding v using r by simp
    qed
  qed
qed


lemma RawContentIn_loop_refines:
  "valid_slice m src \<Longrightarrow> sl_buf src < b \<Longrightarrow> b < unused m \<Longrightarrow>
     RawContent_loop lines (readSlice m src) i (cells m b)
       = map_option (\<lambda>m'. cells m' b) (RawContentIn_loop lines src i b m)
     \<and> (\<forall>m'. RawContentIn_loop lines src i b m = Some m' \<longrightarrow>
           (\<forall>id<b. cells m' id = cells m id) \<and> unused m \<le> unused m')"
proof (induction lines src i b m rule: RawContentIn_loop.induct)
  case (1 lines src i b m)
  show ?case
  proof (cases "i < length lines")
    case False
    then show ?thesis
      by (subst RawContent_loop.simps, subst RawContentIn_loop.simps,
          subst (2) RawContentIn_loop.simps) simp
  next
    case True
    note V = ValueIn_Value[OF "1.prems"(1), of "lines ! i"]
    show ?thesis
    proof (cases "ValueIn m (lines ! i) src")
      case None
      then have "Value (lines ! i) (readSlice m src) = None" using V by simp
      then show ?thesis using True None
        by (subst RawContent_loop.simps, subst RawContentIn_loop.simps,
            subst (2) RawContentIn_loop.simps) simp
    next
      case (Some r)
      obtain m1 line where r: "r = (m1, line)" by (cases r)
      from V Some r have val: "Value (lines ! i) (readSlice m src) = Some (readSlice m1 line)"
        and mono: "unused m \<le> unused m1"
        and same: "\<forall>id<unused m. cells m1 id = cells m id" by auto
      define m2 where "m2 = m1\<lparr>cells := (cells m1)(b := cells m1 b @ readSlice m1 line)\<rparr>"
      have srcb: "sl_buf src < unused m" "sl_buf src \<noteq> b"
        using "1.prems" by (auto simp: valid_slice_def)
      have c2: "cells m2 (sl_buf src) = cells m (sl_buf src)"
        using srcb same by (simp add: m2_def)
      have v2: "valid_slice m2 src"
        using "1.prems"(1) mono c2 by (simp add: valid_slice_def m2_def)
      have rs: "readSlice m2 src = readSlice m src"
        using c2 by (simp add: readSlice_def)
      have b2: "b < unused m2" using "1.prems"(3) mono by (simp add: m2_def)
      have cb: "cells m2 b = cells m b @ readSlice m1 line"
        using same "1.prems"(3) by (simp add: m2_def)
      have old: "\<forall>id<b. cells m2 id = cells m id"
        using same "1.prems"(3) by (simp add: m2_def)
      have u2: "unused m \<le> unused m2" using mono by (simp add: m2_def)
      note IH = "1.IH"[OF True Some r[symmetric] v2[unfolded m2_def] "1.prems"(2) b2[unfolded m2_def],
          folded m2_def]
      have step1: "RawContent_loop lines (readSlice m src) i (cells m b)
                    = RawContent_loop lines (readSlice m2 src) (Suc i) (cells m2 b)"
        using True val by (subst RawContent_loop.simps) (simp add: rs cb)
      have step2: "RawContentIn_loop lines src i b m = RawContentIn_loop lines src (Suc i) b m2"
        using True Some r by (subst RawContentIn_loop.simps) (simp add: m2_def)
      show ?thesis unfolding step1 step2 using IH old u2 by auto
    qed
  qed
qed

lemma RawContentIn_refines:
  assumes "valid_slice m src"
  shows "map_option (\<lambda>(m', out). readSlice m' out) (RawContentIn m b src)
           = RawContent b (readSlice m src)
         \<and> (\<forall>m' out. RawContentIn m b src = Some (m', out) \<longrightarrow>
               sl_buf out = unused m \<and> sl_buf out \<noteq> sl_buf src
               \<and> (\<forall>id<unused m. cells m' id = cells m id)
               \<and> readSlice m' src = readSlice m src)"
proof -
  define m0 where "m0 = m\<lparr>cells := (cells m)(unused m := []), unused := Suc (unused m)\<rparr>"
  have lt: "sl_buf src < unused m" using assms by (simp add: valid_slice_def)
  have v0: "valid_slice m0 src" using assms by (auto simp: valid_slice_def m0_def)
  have rs: "readSlice m0 src = readSlice m src" using lt by (simp add: readSlice_def m0_def)
  have b0: "unused m < unused m0" by (simp add: m0_def)
  have c0: "cells m0 (unused m) = []" by (simp add: m0_def)
  note L = RawContentIn_loop_refines[OF v0 lt b0, of "Lines b" 0, unfolded rs c0]
  have def: "RawContentIn m b src =
      (case RawContentIn_loop (Lines b) src 0 (unused m) m0 of
           None \<Rightarrow> None
         | Some m' \<Rightarrow> Some (m', \<lparr>sl_buf = unused m, sl_lo = 0, sl_hi = length (cells m' (unused m))\<rparr>))"
    by (simp add: RawContentIn_def Let_def m0_def)
  show ?thesis
  proof (cases "RawContentIn_loop (Lines b) src 0 (unused m) m0")
    case None
    then show ?thesis using L by (simp add: def RawContent_def)
  next
    case (Some m')
    have old: "\<forall>id<unused m. cells m' id = cells m id"
      using L Some by (auto simp: m0_def)
    then have "readSlice m' src = readSlice m src" using lt by (simp add: readSlice_def)
    moreover have "readSlice m' \<lparr>sl_buf = unused m, sl_lo = 0, sl_hi = length (cells m' (unused m))\<rparr>
                     = cells m' (unused m)"
      by (rule readSlice_whole) simp
    ultimately show ?thesis using L Some old lt by (simp add: def RawContent_def)
  qed
qed

text \<open>
  C10. Neither pass writes the source buffer or the map of transformers: whatever state
  \<^verbatim>\<open>Transform\<close>, \<^verbatim>\<open>renderFenced\<close> or a whole render pass ends in, the source and
  \<^verbatim>\<open>PipeFuncs\<close> are what they were. With the buffers in memory, \<open>RawContentIn\<close> returns a
  view of a buffer that did not exist before, so not of the source's; it holds the bytes
  that \<open>RawContent\<close> computes; no buffer that existed before has changed, and the source
  reads as it did.
\<close>

theorem passes_only_read:
  "(\<forall>w'. Transform fuel w doc = Some (Transformed w') \<longrightarrow>
       source w' = source w \<and> PipeFuncs w' = PipeFuncs w)
   \<and> (\<forall>st err w'. renderFenced w n entering = Walked st err w' \<longrightarrow>
       source w' = source w \<and> PipeFuncs w' = PipeFuncs w)
   \<and> (\<forall>st err w'. Render fuel dflt w doc = Some (Walked st err w') \<longrightarrow>
       source w' = source w \<and> PipeFuncs w' = PipeFuncs w)
   \<and> (valid_slice m src \<longrightarrow>
        map_option (\<lambda>(m', out). readSlice m' out) (RawContentIn m b src)
          = RawContent b (readSlice m src)
        \<and> (\<forall>m' out. RawContentIn m b src = Some (m', out) \<longrightarrow>
              sl_buf out = unused m \<and> sl_buf out \<noteq> sl_buf src
              \<and> (\<forall>id<unused m. cells m' id = cells m id)
              \<and> readSlice m' src = readSlice m src))"
proof (intro conjI allI impI)
  fix w' assume "Transform fuel w doc = Some (Transformed w')"
  from Transform_frame[OF this] show "source w' = source w" "PipeFuncs w' = PipeFuncs w"
    by simp_all
next
  fix st err w' assume "renderFenced w n entering = Walked st err w'"
  from renderFenced_frame[OF this] show "source w' = source w" "PipeFuncs w' = PipeFuncs w"
    by simp_all
next
  fix st err w' assume "Render fuel dflt w doc = Some (Walked st err w')"
  from Render_frame[OF this] show "source w' = source w" "PipeFuncs w' = PipeFuncs w"
    by simp_all
next
  assume v: "valid_slice m src"
  note R = RawContentIn_refines[OF v, of b]
  from R show "map_option (\<lambda>(m', out). readSlice m' out) (RawContentIn m b src)
                = RawContent b (readSlice m src)" by simp
  fix m' out assume "RawContentIn m b src = Some (m', out)"
  with R show "sl_buf out = unused m" "sl_buf out \<noteq> sl_buf src"
    "readSlice m' src = readSlice m src" by simp_all
  fix id assume "id < unused m"
  with R \<open>RawContentIn m b src = Some (m', out)\<close> show "cells m' id = cells m id" by simp
qed

theorem passes_only_read_witness:
  "(\<exists>w'. Transform 4 docPadded 0 = Some (Transformed w')
        \<and> source w' = source docPadded \<and> PipeFuncs w' = PipeFuncs docPadded)
   \<and> (\<exists>st err w'. renderFenced docPaddedTagged 3 True = Walked st err w'
        \<and> source w' = source docPaddedTagged \<and> PipeFuncs w' = PipeFuncs docPaddedTagged)
   \<and> (\<exists>st err w'. Render 4 exampleHost docPaddedTagged 0 = Some (Walked st err w')
        \<and> source w' = source docPaddedTagged \<and> PipeFuncs w' = PipeFuncs docPaddedTagged)
   \<and> (\<exists>m' out. RawContentIn exampleMemory (heap docPadded 1) exampleSource = Some (m', out)
        \<and> readSlice m' out = ''  foo'' @ [CHR 0x0A]
        \<and> sl_buf out = 1 \<and> sl_buf out \<noteq> sl_buf exampleSource
        \<and> (\<forall>id<unused exampleMemory. cells m' id = cells exampleMemory id)
        \<and> readSlice m' exampleSource = readSlice exampleMemory exampleSource)"
proof -
  have "\<not> Option.is_none (finalWorld (Some (renderFenced docPaddedTagged 3 True)))"
    by code_simp
  then obtain st1 e1 w1 where r1: "renderFenced docPaddedTagged 3 True = Walked st1 e1 w1"
    by (auto simp: Option.is_none_def finalWorld_def split: walked.splits)
  have "\<not> Option.is_none (finalWorld (Render 4 exampleHost docPaddedTagged 0))"
    by code_simp
  then obtain st2 e2 w2 where r2: "Render 4 exampleHost docPaddedTagged 0 = Some (Walked st2 e2 w2)"
    by (auto simp: Option.is_none_def finalWorld_def split: walked.splits option.splits)
  have v: "valid_slice exampleMemory exampleSource"
    by code_simp
  have "map_option (\<lambda>(m', out). (readSlice m' out, sl_buf out))
          (RawContentIn exampleMemory (heap docPadded 1) exampleSource)
        = Some (''  foo'' @ [CHR 0x0A], 1)"
    by code_simp
  then obtain m' out where
    r3: "RawContentIn exampleMemory (heap docPadded 1) exampleSource = Some (m', out)"
    and c3: "readSlice m' out = ''  foo'' @ [CHR 0x0A]" "sl_buf out = 1"
    by auto
  note T1 = passes_only_read[where fuel = 4 and w = docPadded and doc = 0
      and m = exampleMemory and src = exampleSource and b = "heap docPadded 1"]
  note T2 = passes_only_read[where fuel = 4 and w = docPaddedTagged and doc = 0 and n = 3
      and entering = True and dflt = exampleHost]
  have a: "\<exists>w'. Transform 4 docPadded 0 = Some (Transformed w')
        \<and> source w' = source docPadded \<and> PipeFuncs w' = PipeFuncs docPadded"
    using T1 Transform_docPadded by blast
  have b: "\<exists>st err w'. renderFenced docPaddedTagged 3 True = Walked st err w'
        \<and> source w' = source docPaddedTagged \<and> PipeFuncs w' = PipeFuncs docPaddedTagged"
    using T2 r1 by blast
  have c: "\<exists>st err w'. Render 4 exampleHost docPaddedTagged 0 = Some (Walked st err w')
        \<and> source w' = source docPaddedTagged \<and> PipeFuncs w' = PipeFuncs docPaddedTagged"
    using T2 r2 by blast
  have d: "\<exists>m' out. RawContentIn exampleMemory (heap docPadded 1) exampleSource = Some (m', out)
        \<and> readSlice m' out = ''  foo'' @ [CHR 0x0A]
        \<and> sl_buf out = 1 \<and> sl_buf out \<noteq> sl_buf exampleSource
        \<and> (\<forall>id<unused exampleMemory. cells m' id = cells exampleMemory id)
        \<and> readSlice m' exampleSource = readSlice exampleMemory exampleSource"
    using T1 v r3 c3 by blast
  show ?thesis using a b c d by blast
qed

subsection \<open>Documents with a matching block\<close>


text \<open>
  C1 on \<open>docTwoBananas\<close>. Both blocks are tagged \<^verbatim>\<open>banana\<close>; the transformer makes \<^verbatim>\<open>faa\<close>
  of the first and \<^verbatim>\<open>baa\<close> of the second. The conversion writes \<^verbatim>\<open>baa\<close> only: nothing is
  rendered for the first block.
\<close>

theorem matched_block_output_lost:
  "Language (heap docTwoBananas 1) (source docTwoBananas) = Some ''banana''
   \<and> Language (heap docTwoBananas 2) (source docTwoBananas) = Some ''banana''
   \<and> map_option banana (RawContent (heap docTwoBananas 1) (source docTwoBananas))
       = Some (Inr (''faa'' @ [CHR 0x0A]))
   \<and> map_option banana (RawContent (heap docTwoBananas 2) (source docTwoBananas))
       = Some (Inr (''baa'' @ [CHR 0x0A]))
   \<and> rendered (Convert 5 exampleHost docTwoBananas 0) = Some (None, ''baa'' @ [CHR 0x0A])"
  by code_simp

text \<open>
  C3 on \<open>docTwoBananas\<close>. The render pass invokes a transformer once, for the \<^verbatim>\<open>pfBlock\<close>
  at address 6 with the content of the second block; for the first block, whose tag is
  registered as well, the transformer is invoked zero times.
\<close>

theorem matched_block_never_invoked:
  "ntype (heap docTwoBananas 1) = FencedCodeBlock
   \<and> Language (heap docTwoBananas 1) (source docTwoBananas) = Some ''banana''
   \<and> RawContent (heap docTwoBananas 1) (source docTwoBananas) = Some (''foo'' @ [CHR 0x0A])
   \<and> map_option calls (convertedWorld (Convert 5 exampleHost docTwoBananas 0))
       = Some [(6, ''banana'', ''boo'' @ [CHR 0x0A])]"
  by code_simp

end
